theory Spec2Isabelle
  imports Main "HOL-Library.Word"
begin

unbundle bit_operations_syntax

section \<open>Data model (Inc/SSD1306.hpp)\<close>

type_synonym u8 = "8 word"
type_synonym u16 = "16 word"

text \<open>\<^verbatim>\<open>enum HardwareConf : uint8_t\<close> and \<^verbatim>\<open>enum Color : uint8_t\<close>, with the
  byte each enumerator stands for.\<close>

datatype HardwareConf = SEQ_NOREMAP | SEQ_REMAP | ALT_NOREMAP | ALT_REMAP

fun HardwareConf_byte :: "HardwareConf \<Rightarrow> u8" where
  "HardwareConf_byte SEQ_NOREMAP = 0x02"
| "HardwareConf_byte SEQ_REMAP = 0x22"
| "HardwareConf_byte ALT_NOREMAP = 0x12"
| "HardwareConf_byte ALT_REMAP = 0x32"

datatype Color = BLACK | WHITE

fun Color_byte :: "Color \<Rightarrow> u8" where
  "Color_byte BLACK = 0"
| "Color_byte WHITE = 0xff"

text \<open>\<^verbatim>\<open>Fonts::FontDef\<close> is declared in fonts.h, which is not part of the sources at
  hand. Its fields are taken from their uses in \<^verbatim>\<open>SSD1306::Write_Char\<close>: two 8-bit
  sizes and a table of 16-bit row words.\<close>

record FontDef =
  FontWidth :: u8
  FontHeight :: u8
  data :: "u16 list"

text \<open>The anonymous struct behind the member \<^verbatim>\<open>Coordinates\<close>.\<close>

record Cursor =
  X :: u8
  Y :: u8

text \<open>One call of the external \<^verbatim>\<open>HAL_I2C_Mem_Write(conn, DevAddress, MemAddress,
  MemAddSize, pData, Size, Timeout)\<close>. \<open>pData\<close> holds the object the pointer designates (the
  one command byte, or the whole frame buffer) and \<open>Size\<close> the number of bytes the callee
  is asked to send from its start.\<close>

record hal_call =
  DevAddress :: u8
  MemAddress :: u8
  MemAddSize :: nat
  pData :: "u8 list"
  Size :: nat
  Timeout :: nat

text \<open>The transport is external. Its status code may depend on everything sent so far
  and on the call itself; \<open>0\<close> is success.\<close>

type_synonym hal = "hal_call list \<Rightarrow> hal_call \<Rightarrow> int"

text \<open>The class \<^verbatim>\<open>SSD1306\<close>. The peripheral behind the handle \<^verbatim>\<open>conn\<close> is
  represented by the calls made on it so far, oldest first.\<close>

record SSD1306 =
  conn :: "hal_call list"
  height :: u8
  hard_conf :: u8
  address :: u8
  font :: FontDef
  buffer :: "u8 list"
  isinitialized :: bool
  last_error :: int
  Coordinates :: Cursor

definition width :: u8 where
  "width = 128"

definition buffer_size :: nat where
  "buffer_size = 64 div 8 * 128"

definition control_b_command :: u8 where
  "control_b_command = 0x00"

definition control_b_data :: u8 where
  "control_b_data = 0x40"

text \<open>What can go wrong in C++ without being a defined result: an index outside
  \<^verbatim>\<open>std::array<uint8_t, buffer_size>\<close>, a read past the end of a caller's array or of the
  font table, and a left shift of an \<^verbatim>\<open>int\<close> by 32 bits or more or past its 32 bits.\<close>

datatype fault = Buffer_Index | Table_Index | Source_Too_Short | Shift_Overflow

section \<open>Transport (Hardware/SSD1306_hardware.cpp)\<close>

definition command_call :: "SSD1306 \<Rightarrow> u8 \<Rightarrow> hal_call" where
  "command_call d command =
     \<lparr>DevAddress = address d, MemAddress = control_b_command, MemAddSize = 1,
      pData = [command], Size = 1, Timeout = 1000\<rparr>"

definition data_call :: "SSD1306 \<Rightarrow> u8 list \<Rightarrow> hal_call" where
  "data_call d arr =
     \<lparr>DevAddress = address d, MemAddress = control_b_data, MemAddSize = 1,
      pData = arr, Size = unat (height d) * unat width div 8, Timeout = 1000\<rparr>"

definition Write_Command :: "hal \<Rightarrow> SSD1306 \<Rightarrow> u8 \<Rightarrow> SSD1306" where
  "Write_Command hal d command =
     (let temp = hal (conn d) (command_call d command);
          d' = d\<lparr>conn := conn d @ [command_call d command]\<rparr>
      in if temp \<noteq> 0 then d'\<lparr>last_error := temp\<rparr> else d')"

definition Write_Data :: "hal \<Rightarrow> SSD1306 \<Rightarrow> u8 list \<Rightarrow> SSD1306" where
  "Write_Data hal d arr =
     (let temp = hal (conn d) (data_call d arr);
          d' = d\<lparr>conn := conn d @ [data_call d arr]\<rparr>
      in if temp \<noteq> 0 then d'\<lparr>last_error := temp\<rparr> else d')"

text \<open>The bytes a call puts on the wire, where the requested length stays inside the
  object the pointer designates.\<close>

definition payload :: "hal_call \<Rightarrow> u8 list option" where
  "payload call = (if Size call \<le> length (pData call) then Some (take (Size call) (pData call)) else None)"

section \<open>Display controller (Src/SSD1306.cpp)\<close>

definition Display_Off :: "hal \<Rightarrow> SSD1306 \<Rightarrow> SSD1306" where
  "Display_Off hal d = Write_Command hal d 0xAE"

definition Display_On :: "hal \<Rightarrow> SSD1306 \<Rightarrow> SSD1306" where
  "Display_On hal d = Write_Command hal d 0xAF"

definition Set_Brightness :: "hal \<Rightarrow> SSD1306 \<Rightarrow> u8 \<Rightarrow> SSD1306" where
  "Set_Brightness hal d brightness =
     (let d = Write_Command hal d 0x81 in Write_Command hal d brightness)"

definition Flip_Screen :: "hal \<Rightarrow> SSD1306 \<Rightarrow> bool \<Rightarrow> SSD1306" where
  "Flip_Screen hal d flipped =
     (if flipped = False then Write_Command hal d 0xC8 else Write_Command hal d 0xC0)"

definition Invert_Colors :: "hal \<Rightarrow> SSD1306 \<Rightarrow> bool \<Rightarrow> SSD1306" where
  "Invert_Colors hal d inverted =
     (if inverted = True then Write_Command hal d 0xA7 else Write_Command hal d 0xA6)"

definition Mirror_Screen :: "hal \<Rightarrow> SSD1306 \<Rightarrow> bool \<Rightarrow> SSD1306" where
  "Mirror_Screen hal d mirrored =
     (if mirrored = False then Write_Command hal d 0xA1 else Write_Command hal d 0xA0)"

definition Fill :: "SSD1306 \<Rightarrow> Color \<Rightarrow> SSD1306" where
  "Fill d color =
     (if color = BLACK
      then d\<lparr>buffer := map (\<lambda>b. Color_byte BLACK) (buffer d)\<rparr>
      else d\<lparr>buffer := map (\<lambda>b. Color_byte WHITE) (buffer d)\<rparr>)"

definition Clean :: "SSD1306 \<Rightarrow> SSD1306" where
  "Clean d = Fill d BLACK"

definition Update_Screen :: "hal \<Rightarrow> SSD1306 \<Rightarrow> SSD1306" where
  "Update_Screen hal d =
     (let d = Write_Command hal d 0x21;
          d = Write_Command hal d 0x00;
          d = Write_Command hal d 127;
          d = Write_Command hal d 0x22;
          d = Write_Command hal d 0x00;
          d = Write_Command hal d ((height d div 8) - 1)
      in Write_Data hal d (buffer d))"

definition Initialize :: "hal \<Rightarrow> SSD1306 \<Rightarrow> bool \<times> SSD1306" where
  "Initialize hal d =
     (let d = Display_Off hal d;
          d = Write_Command hal d 0xD5;
          d = Write_Command hal d 0x80;
          d = Write_Command hal d 0xA8;
          d = Write_Command hal d (height d - 1);
          d = Write_Command hal d 0xD3;
          d = Write_Command hal d 0x00;
          d = Write_Command hal d 0x40;
          d = Write_Command hal d 0x8D;
          d = Write_Command hal d 0x14;
          d = Mirror_Screen hal d False;
          d = Flip_Screen hal d False;
          d = Write_Command hal d 0xDA;
          d = Write_Command hal d (hard_conf d);
          d = Set_Brightness hal d 150;
          d = Write_Command hal d 0xD9;
          d = Write_Command hal d 0x22;
          d = Write_Command hal d 0xDB;
          d = Write_Command hal d 0x40;
          d = Write_Command hal d 0xA4;
          d = Invert_Colors hal d False;
          d = Write_Command hal d 0x20;
          d = Write_Command hal d 0x00;
          d = Write_Command hal d 0x21;
          d = Write_Command hal d 0x00;
          d = Write_Command hal d (width - 1);
          d = Write_Command hal d 0x22;
          d = Write_Command hal d 0x00;
          d = Write_Command hal d ((height d div 8) - 1);
          d = Display_On hal d;
          d = Clean d;
          d = Update_Screen hal d;
          d = (if last_error d = 0 then d\<lparr>isinitialized := True\<rparr>
               else d\<lparr>isinitialized := False\<rparr>)
      in (isinitialized d, d))"

definition Get_Last_Error :: "SSD1306 \<Rightarrow> int" where
  "Get_Last_Error d = last_error d"

definition Clean_Errors :: "SSD1306 \<Rightarrow> SSD1306" where
  "Clean_Errors d = d\<lparr>last_error := 0\<rparr>"

definition IsInitialized :: "SSD1306 \<Rightarrow> bool" where
  "IsInitialized d = isinitialized d"

definition Set_Font_size :: "SSD1306 \<Rightarrow> FontDef \<Rightarrow> SSD1306" where
  "Set_Font_size d f = d\<lparr>font := f\<rparr>"

definition Set_Cursor :: "SSD1306 \<Rightarrow> u8 \<Rightarrow> u8 \<Rightarrow> SSD1306" where
  "Set_Cursor d x y =
     (let x = (if x \<ge> width then width else x);
          y = (if y \<ge> height d then height d else y)
      in d\<lparr>Coordinates := (Coordinates d)\<lparr>X := x, Y := y\<rparr>\<rparr>)"

section \<open>Drawing primitives (Src/SSD1306.cpp)\<close>

text \<open>The operands of \<^verbatim>\<open>x + width * (y / 8)\<close> are promoted to \<^verbatim>\<open>int\<close>, so the index is
  computed without wrap-around; \<^verbatim>\<open>uint8_t(1 << (y % 8))\<close> is a single bit of a byte.\<close>

definition Draw_Pixel :: "SSD1306 \<Rightarrow> u8 \<Rightarrow> u8 \<Rightarrow> Color \<Rightarrow> fault + SSD1306" where
  "Draw_Pixel d x y c =
     (if x \<ge> width \<or> y \<ge> height d then Inr d
      else
        let i = unat x + unat width * unat (y div 8) in
        if i \<ge> buffer_size then Inl Buffer_Index
        else if c = WHITE
          then Inr (d\<lparr>buffer := (buffer d)[i := (buffer d ! i) OR push_bit (unat (y mod 8)) 1]\<rparr>)
          else Inr (d\<lparr>buffer := (buffer d)[i := (buffer d ! i) AND NOT (push_bit (unat (y mod 8)) 1)]\<rparr>))"

text \<open>\<^verbatim>\<open>for (uint8_t i = 0; i < bound; i++) body\<close>: the counter is a byte, the bound is
  read again before every round, and a fault in the body ends the loop.\<close>

function for_u8 :: "('s \<Rightarrow> u8) \<Rightarrow> (u8 \<Rightarrow> 's \<Rightarrow> fault + 's) \<Rightarrow> u8 \<Rightarrow> 's \<Rightarrow> fault + 's" where
  "for_u8 bound body i s =
     (if i < bound s
      then (case body i s of Inl e \<Rightarrow> Inl e | Inr s' \<Rightarrow> for_u8 bound body (i + 1) s')
      else Inr s)"
  by pat_completeness auto
termination
proof (relation "measure (\<lambda>(bound, body, i, s). 256 - unat i)")
  fix bound :: "'s \<Rightarrow> u8" and body :: "u8 \<Rightarrow> 's \<Rightarrow> fault + 's" and i :: u8 and s s' :: 's
  assume "i < bound s"
  then have "unat i < unat (bound s)"
    by (simp add: word_less_nat_alt)
  moreover have "unat (bound s) < 256"
    using unsigned_less [of "bound s", where ?'a = nat] by simp
  ultimately have "unat (i + 1) = unat i + 1"
    by (simp add: unat_word_ariths)
  then show "((bound, body, i + 1, s'), (bound, body, i, s)) \<in> measure (\<lambda>(bound, body, i, s). 256 - unat i)"
    using \<open>unat i < unat (bound s)\<close> \<open>unat (bound s) < 256\<close> by simp
qed simp

definition Draw_Line_H :: "SSD1306 \<Rightarrow> u8 \<Rightarrow> u8 \<Rightarrow> u8 \<Rightarrow> Color \<Rightarrow> fault + SSD1306" where
  "Draw_Line_H d x y w c = for_u8 (\<lambda>d. w) (\<lambda>i d. Draw_Pixel d (x + i) y c) 0 d"

definition Draw_Line_V :: "SSD1306 \<Rightarrow> u8 \<Rightarrow> u8 \<Rightarrow> u8 \<Rightarrow> Color \<Rightarrow> fault + SSD1306" where
  "Draw_Line_V d x y h c = for_u8 (\<lambda>d. h) (\<lambda>i d. Draw_Pixel d x (y + i) c) 0 d"

definition Draw_Square :: "SSD1306 \<Rightarrow> u8 \<Rightarrow> u8 \<Rightarrow> u8 \<Rightarrow> u8 \<Rightarrow> Color \<Rightarrow> fault + SSD1306" where
  "Draw_Square d x y x2 y2 c =
     (case Draw_Line_H d x y (x2 - x + 1) c of Inl e \<Rightarrow> Inl e | Inr d \<Rightarrow>
      case Draw_Line_H d x y2 (x2 - x + 1) c of Inl e \<Rightarrow> Inl e | Inr d \<Rightarrow>
      case Draw_Line_V d x y (y2 - y + 1) c of Inl e \<Rightarrow> Inl e | Inr d \<Rightarrow>
      Draw_Line_V d x2 y (y2 - y + 1) c)"

text \<open>The caller's sample array is a list; reading past its end is a fault.\<close>

definition Draw_Waveform :: "SSD1306 \<Rightarrow> u8 \<Rightarrow> u8 \<Rightarrow> u8 list \<Rightarrow> u8 \<Rightarrow> Color \<Rightarrow> fault + SSD1306" where
  "Draw_Waveform d x y samples n c =
     for_u8 (\<lambda>d. n)
       (\<lambda>i d. if unat i < length samples then Draw_Pixel d (i + x) (y - samples ! unat i) c
              else Inl Source_Too_Short) 0 d"

text \<open>\<^verbatim>\<open>for (uint32_t i = 0; i < buffer_size; i++) buffer[i] = image[i];\<close>\<close>

definition Draw_Image :: "SSD1306 \<Rightarrow> u8 list \<Rightarrow> fault + SSD1306" where
  "Draw_Image d img =
     (if length img < buffer_size then Inl Source_Too_Short
      else Inr (d\<lparr>buffer := fold (\<lambda>i b. b[i := img ! i]) [0..<buffer_size] (buffer d)\<rparr>))"

section \<open>Glyph rendering (Src/SSD1306.cpp)\<close>

text \<open>\<^verbatim>\<open>font.data[(chr - 32) * font.FontHeight + y]\<close>, computed in \<^verbatim>\<open>int\<close>. Plain
  \<^verbatim>\<open>char\<close> is read as unsigned, as on the ARM target; for the character codes up to 127
  a signed \<^verbatim>\<open>char\<close> gives the same index. An index outside the table is a fault.\<close>

definition font_row :: "FontDef \<Rightarrow> char \<Rightarrow> u8 \<Rightarrow> fault + u16" where
  "font_row f chr y =
     (let k = (int (of_char chr) - 32) * int (unat (FontHeight f)) + int (unat y)
      in if k < 0 \<or> k \<ge> int (length (data f)) then Inl Table_Index
         else Inr (data f ! nat k))"

text \<open>\<^verbatim>\<open>(row << x) & 0x8000\<close>: the row word is promoted to a 32-bit \<^verbatim>\<open>int\<close> before the
  shift. A shift count of 32 or more, and (before C++20) a result that does not fit 32
  bits, are undefined: both are faults here.\<close>

definition row_bit :: "u16 \<Rightarrow> u8 \<Rightarrow> fault + bool" where
  "row_bit row x =
     (if unat x \<ge> 32 \<or> unat row * 2 ^ unat x \<ge> 2 ^ 32 then Inl Shift_Overflow
      else Inr (push_bit (unat x) (ucast row :: 32 word) AND 0x8000 \<noteq> 0))"

text \<open>The body of the inner loop of \<^verbatim>\<open>Write_Char\<close> (one bit of a row word), the body of
  its outer loop (one row of the glyph), and the function itself.\<close>

definition Write_Char_bit :: "Color \<Rightarrow> u16 \<Rightarrow> u8 \<Rightarrow> u8 \<Rightarrow> SSD1306 \<Rightarrow> fault + SSD1306" where
  "Write_Char_bit color row y x d =
     (case row_bit row x of Inl e \<Rightarrow> Inl e | Inr b \<Rightarrow>
        if color = BLACK
        then (if b
              then Draw_Pixel d (X (Coordinates d) + x) (Y (Coordinates d) + y) BLACK
              else Draw_Pixel d (X (Coordinates d) + x) (Y (Coordinates d) + y) WHITE)
        else (if b
              then Draw_Pixel d (X (Coordinates d) + x) (Y (Coordinates d) + y) WHITE
              else Draw_Pixel d (X (Coordinates d) + x) (Y (Coordinates d) + y) BLACK))"

definition Write_Char_row :: "char \<Rightarrow> Color \<Rightarrow> u8 \<Rightarrow> SSD1306 \<Rightarrow> fault + SSD1306" where
  "Write_Char_row chr color y d =
     (case font_row (font d) chr y of Inl e \<Rightarrow> Inl e | Inr row \<Rightarrow>
        for_u8 (\<lambda>d. FontWidth (font d)) (Write_Char_bit color row y) 0 d)"

definition Write_Char :: "SSD1306 \<Rightarrow> char \<Rightarrow> Color \<Rightarrow> fault + SSD1306" where
  "Write_Char d chr color =
     (case for_u8 (\<lambda>d. FontHeight (font d)) (Write_Char_row chr color) 0 d of
        Inl e \<Rightarrow> Inl e
      | Inr d \<Rightarrow>
          Inr (d\<lparr>Coordinates := (Coordinates d)\<lparr>X := X (Coordinates d) + FontWidth (font d)\<rparr>\<rparr>))"

text \<open>A C string is the list of its characters; a NUL ends it early.\<close>

fun Write_String :: "SSD1306 \<Rightarrow> string \<Rightarrow> fault + SSD1306" where
  "Write_String d [] = Inr d"
| "Write_String d (c # cs) =
     (if c = CHR 0x00 then Inr d
      else case Write_Char d c WHITE of Inl e \<Rightarrow> Inl e | Inr d' \<Rightarrow> Write_String d' cs)"

fun Write_String_Inverted :: "SSD1306 \<Rightarrow> string \<Rightarrow> fault + SSD1306" where
  "Write_String_Inverted d [] = Inr d"
| "Write_String_Inverted d (c # cs) =
     (if c = CHR 0x00 then Inr d
      else case Write_Char d c BLACK of Inl e \<Rightarrow> Inl e | Inr d' \<Rightarrow> Write_String_Inverted d' cs)"

section \<open>The public interface as a whole\<close>

text \<open>One constructor for every public member function of the class, with its arguments.\<close>

datatype api_call =
    Call_Initialize
  | Call_Update_Screen
  | Call_Clean
  | Call_Fill Color
  | Call_Set_Cursor u8 u8
  | Call_Write_String string
  | Call_Write_String_Inverted string
  | Call_Draw_Pixel u8 u8 Color
  | Call_Draw_Image "u8 list"
  | Call_Draw_Line_H u8 u8 u8 Color
  | Call_Draw_Line_V u8 u8 u8 Color
  | Call_Draw_Square u8 u8 u8 u8 Color
  | Call_Draw_Waveform u8 u8 "u8 list" u8 Color
  | Call_Display_Off
  | Call_Display_On
  | Call_Set_Brightness u8
  | Call_Invert_Colors bool
  | Call_Flip_Screen bool
  | Call_Mirror_Screen bool
  | Call_Set_Font_size FontDef
  | Call_IsInitialized
  | Call_Get_Last_Error
  | Call_Clean_Errors

fun perform :: "hal \<Rightarrow> SSD1306 \<Rightarrow> api_call \<Rightarrow> fault + SSD1306" where
  "perform hal d Call_Initialize = Inr (snd (Initialize hal d))"
| "perform hal d Call_Update_Screen = Inr (Update_Screen hal d)"
| "perform hal d Call_Clean = Inr (Clean d)"
| "perform hal d (Call_Fill color) = Inr (Fill d color)"
| "perform hal d (Call_Set_Cursor x y) = Inr (Set_Cursor d x y)"
| "perform hal d (Call_Write_String str) = Write_String d str"
| "perform hal d (Call_Write_String_Inverted str) = Write_String_Inverted d str"
| "perform hal d (Call_Draw_Pixel x y c) = Draw_Pixel d x y c"
| "perform hal d (Call_Draw_Image img) = Draw_Image d img"
| "perform hal d (Call_Draw_Line_H x y w c) = Draw_Line_H d x y w c"
| "perform hal d (Call_Draw_Line_V x y h c) = Draw_Line_V d x y h c"
| "perform hal d (Call_Draw_Square x y x2 y2 c) = Draw_Square d x y x2 y2 c"
| "perform hal d (Call_Draw_Waveform x y samples n c) = Draw_Waveform d x y samples n c"
| "perform hal d Call_Display_Off = Inr (Display_Off hal d)"
| "perform hal d Call_Display_On = Inr (Display_On hal d)"
| "perform hal d (Call_Set_Brightness brightness) = Inr (Set_Brightness hal d brightness)"
| "perform hal d (Call_Invert_Colors inverted) = Inr (Invert_Colors hal d inverted)"
| "perform hal d (Call_Flip_Screen flipped) = Inr (Flip_Screen hal d flipped)"
| "perform hal d (Call_Mirror_Screen mirrored) = Inr (Mirror_Screen hal d mirrored)"
| "perform hal d (Call_Set_Font_size f) = Inr (Set_Font_size d f)"
| "perform hal d Call_IsInitialized = Inr d"
| "perform hal d Call_Get_Last_Error = Inr d"
| "perform hal d Call_Clean_Errors = Inr (Clean_Errors d)"

section \<open>Notions used in the statements\<close>

text \<open>Reading a pixel back from the frame buffer, as the tests do on the transmitted bytes:
  bit \<open>y mod 8\<close> of byte \<open>x + width * (y div 8)\<close>.\<close>

definition pixel_index :: "u8 \<Rightarrow> u8 \<Rightarrow> nat" where
  "pixel_index x y = unat x + unat width * (unat y div 8)"

definition pixel_bit :: "SSD1306 \<Rightarrow> u8 \<Rightarrow> u8 \<Rightarrow> bool" where
  "pixel_bit d x y = bit (buffer d ! pixel_index x y) (unat y mod 8)"

text \<open>The byte a pixel write leaves at the pixel's index.\<close>

definition pixel_byte :: "u8 \<Rightarrow> u8 \<Rightarrow> Color \<Rightarrow> u8" where
  "pixel_byte b y c =
     (if c = WHITE then b OR push_bit (unat y mod 8) 1 else b AND NOT (push_bit (unat y mod 8) 1))"

text \<open>A sequence of \<^verbatim>\<open>Draw_Pixel\<close> calls, in order.\<close>

fun Draw_Pixels :: "SSD1306 \<Rightarrow> (u8 \<times> u8 \<times> Color) list \<Rightarrow> fault + SSD1306" where
  "Draw_Pixels d [] = Inr d"
| "Draw_Pixels d ((x, y, c) # ps) =
     (case Draw_Pixel d x y c of Inl e \<Rightarrow> Inl e | Inr d' \<Rightarrow> Draw_Pixels d' ps)"

text \<open>The effect of one pixel write on the bytes of the frame buffer of a display with
  \<open>h\<close> rows, apart from the bounds of the array.\<close>

fun plot :: "u8 \<Rightarrow> u8 list \<Rightarrow> u8 \<times> u8 \<times> Color \<Rightarrow> u8 list" where
  "plot h buf (x, y, c) =
     (if x < width \<and> y < h
      then buf[pixel_index x y := pixel_byte (buf ! pixel_index x y) y c]
      else buf)"

text \<open>Observations on the outcome of a drawing call: nothing on a fault, otherwise the
  pixel read back, or the cursor as two numbers.\<close>

definition pixel_after :: "fault + SSD1306 \<Rightarrow> u8 \<Rightarrow> u8 \<Rightarrow> bool option" where
  "pixel_after r x y = (case r of Inl e \<Rightarrow> None | Inr d \<Rightarrow> Some (pixel_bit d x y))"

definition cursor_after :: "fault + SSD1306 \<Rightarrow> (nat \<times> nat) option" where
  "cursor_after r =
     (case r of Inl e \<Rightarrow> None
      | Inr d \<Rightarrow> Some (unat (X (Coordinates d)), unat (Y (Coordinates d))))"

text \<open>The glyph of a character as the font table gives it: row \<open>y'\<close> of the glyph is the
  word at index \<open>(code - 32) * FontHeight + y'\<close>, and its bit \<open>15 - x'\<close> is the pixel at
  column \<open>x'\<close>. In normal mode (WHITE) a set bit is drawn WHITE and a clear one BLACK; in
  inverted mode (BLACK) the two are swapped.\<close>

definition glyph_row :: "FontDef \<Rightarrow> char \<Rightarrow> nat \<Rightarrow> u16" where
  "glyph_row f chr y' = data f ! ((of_char chr - 32) * unat (FontHeight f) + y')"

definition glyph_bit :: "FontDef \<Rightarrow> char \<Rightarrow> nat \<Rightarrow> nat \<Rightarrow> bool" where
  "glyph_bit f chr x' y' = bit (glyph_row f chr y') (15 - x')"

definition glyph_color :: "Color \<Rightarrow> bool \<Rightarrow> Color" where
  "glyph_color color on =
     (if color = WHITE then (if on then WHITE else BLACK) else (if on then BLACK else WHITE))"

text \<open>The pixel writes of one glyph at the cursor of \<open>d\<close>, row by row and left to right,
  with 8-bit coordinate sums.\<close>

definition glyph_pixels :: "SSD1306 \<Rightarrow> char \<Rightarrow> Color \<Rightarrow> (u8 \<times> u8 \<times> Color) list" where
  "glyph_pixels d chr color =
     concat (map (\<lambda>y'.
       map (\<lambda>x'. (X (Coordinates d) + of_nat x', Y (Coordinates d) + of_nat y',
                  glyph_color color (glyph_bit (font d) chr x' y')))
         [0..<unat (FontWidth (font d))])
       [0..<unat (FontHeight (font d))])"

text \<open>A sequence of \<^verbatim>\<open>Write_Command\<close> calls, in order.\<close>

definition Write_Commands :: "hal \<Rightarrow> SSD1306 \<Rightarrow> u8 list \<Rightarrow> SSD1306" where
  "Write_Commands hal d commands = fold (\<lambda>command d. Write_Command hal d command) commands d"

section \<open>Construction (Inc/SSD1306.hpp)\<close>

text \<open>The constructor writes the members it names and those with a default initialiser.
  The frame buffer and the cursor have neither: they keep what the storage \<open>raw\<close> of the
  object held. \<^verbatim>\<open>Fonts::font_7x10\<close>, the default font, is data of fonts.h and is passed
  in.\<close>

definition SSD1306_ctor ::
  "FontDef \<Rightarrow> SSD1306 \<Rightarrow> hal_call list \<Rightarrow> u8 \<Rightarrow> HardwareConf \<Rightarrow> u8 \<Rightarrow> SSD1306" where
  "SSD1306_ctor font_7x10 raw connection_port screen_height hardware_configuration device_address =
     (let d = raw\<lparr>conn := connection_port, height := screen_height,
                   hard_conf := HardwareConf_byte hardware_configuration,
                   address := device_address, font := font_7x10,
                   isinitialized := False, last_error := 0\<rparr>
      in if screen_height > 64 then d\<lparr>last_error := 0xff\<rparr> else d)"

text \<open>Zero-initialised static storage, where the test suite's global display lives.\<close>

definition static_storage :: SSD1306 where
  "static_storage =
     \<lparr>conn = [], height = 0, hard_conf = 0, address = 0,
      font = \<lparr>FontWidth = 0, FontHeight = 0, data = []\<rparr>,
      buffer = replicate buffer_size 0, isinitialized = False, last_error = 0,
      Coordinates = \<lparr>X = 0, Y = 0\<rparr>\<rparr>"

text \<open>A 7x10 font table that holds the rows of the glyph \<open>8\<close> as the test suite quotes
  them from fonts.h, and blank rows for the 24 glyphs before it.\<close>

definition font_7x10_upto_8 :: FontDef where
  "font_7x10_upto_8 =
     \<lparr>FontWidth = 7, FontHeight = 10,
      data = replicate 240 0 @
        [0x3800, 0x4400, 0x4400, 0x3800, 0x4400, 0x4400, 0x4400, 0x3800, 0x0000, 0x0000]\<rparr>"

text \<open>\<^verbatim>\<open>SSD1306 oled64(&dummy,64);\<close> of Tests/SSD1306_test.cpp.\<close>

definition oled64 :: SSD1306 where
  "oled64 = SSD1306_ctor font_7x10_upto_8 static_storage [] 64 ALT_NOREMAP 0x78"

text \<open>A display constructed with 65 rows. The constructor marks it with
  \<open>last_error = 0xff\<close> and builds it all the same.\<close>

definition oled65 :: SSD1306 where
  "oled65 = SSD1306_ctor font_7x10_upto_8 static_storage [] 65 ALT_NOREMAP 0x78"

section \<open>Pixel writes\<close>

lemma oled64_fields:
  "conn oled64 = []" "height oled64 = 64" "hard_conf oled64 = 0x12" "address oled64 = 0x78"
  "font oled64 = font_7x10_upto_8" "buffer oled64 = replicate buffer_size 0"
  "isinitialized oled64 = False" "last_error oled64 = 0"
  "Coordinates oled64 = \<lparr>X = 0, Y = 0\<rparr>"
  by (simp_all add: oled64_def SSD1306_ctor_def static_storage_def)

lemma oled65_fields:
  "conn oled65 = []" "height oled65 = 65" "hard_conf oled65 = 0x12" "address oled65 = 0x78"
  "font oled65 = font_7x10_upto_8" "buffer oled65 = replicate buffer_size 0"
  "isinitialized oled65 = False" "last_error oled65 = 0xff"
  "Coordinates oled65 = \<lparr>X = 0, Y = 0\<rparr>"
  by (simp_all add: oled65_def SSD1306_ctor_def static_storage_def)

lemma Draw_Pixel_past_buffer:
  "x < width \<Longrightarrow> height d = 65 \<Longrightarrow> Draw_Pixel d x 64 c = Inl Buffer_Index"
  by (simp add: Draw_Pixel_def Let_def buffer_size_def width_def unat_div not_le [symmetric])

lemma pixel_index_bound:
  assumes "x < width" "y < height d" "height d \<le> 64"
  shows "pixel_index x y < buffer_size"
proof -
  have 1: "unat x < 128"
    using assms(1) by (simp add: width_def word_less_nat_alt)
  have "unat y < 64"
    using assms(2,3) by (simp add: word_less_nat_alt word_le_nat_alt)
  then have 2: "unat y div 8 < 8"
    by simp
  show ?thesis
    using 1 2 by (simp add: pixel_index_def width_def buffer_size_def)
qed

lemma bit_set_u8: "n < 8 \<Longrightarrow> bit ((b::u8) OR push_bit n 1) m \<longleftrightarrow> bit b m \<or> m = n"
  by (auto simp add: bit_simps)

lemma bit_clear_u8:
  "n < 8 \<Longrightarrow> bit ((b::u8) AND NOT (push_bit n 1)) m \<longleftrightarrow> bit b m \<and> m \<noteq> n"
  by (auto simp add: bit_simps dest: bit_imp_le_length)

lemma bit_pixel_byte:
  "bit (pixel_byte b y c) m \<longleftrightarrow> (if m = unat y mod 8 then c = WHITE else bit b m)"
proof -
  have "unat y mod 8 < 8"
    by simp
  then show ?thesis
    by (simp add: pixel_byte_def bit_set_u8 bit_clear_u8 del: push_bit_of_1)
qed

lemma Draw_Pixel_outside:
  "x \<ge> width \<or> y \<ge> height d \<Longrightarrow> Draw_Pixel d x y c = Inr d"
  by (simp add: Draw_Pixel_def)

lemma Draw_Pixel_inside:
  assumes "x < width" "y < height d" "height d \<le> 64"
  shows "Draw_Pixel d x y c =
    Inr (d\<lparr>buffer := (buffer d)[pixel_index x y := pixel_byte (buffer d ! pixel_index x y) y c]\<rparr>)"
proof -
  have "pixel_index x y < buffer_size"
    using assms by (rule pixel_index_bound)
  then show ?thesis
    using assms(1,2)
    by (simp add: Draw_Pixel_def Let_def pixel_index_def pixel_byte_def unat_div unat_mod
        not_le [symmetric])
qed

text \<open>Claim C1. On a display of the data model (at most 64 rows, the bound for which the
  1024-byte buffer is sized), every pixel write with \<open>x < width\<close> and \<open>y < height\<close>
  returns without a fault, leaves bit \<open>y mod 8\<close> of byte \<open>x + width * (y div 8)\<close> set for
  WHITE and clear for BLACK, keeps the other bits of that byte, and reading the pixel back
  gives 1 for WHITE and 0 for BLACK.\<close>

theorem Draw_Pixel_sets_or_clears_bit:
  assumes "length (buffer d) = buffer_size" and "height d \<le> 64"
    and "x < width" and "y < height d"
  shows "\<exists>d'. Draw_Pixel d x y c = Inr d' \<and>
           bit (buffer d' ! (unat x + unat width * (unat y div 8))) (unat y mod 8) = (c = WHITE) \<and>
           (\<forall>m. m \<noteq> unat y mod 8 \<longrightarrow>
              bit (buffer d' ! (unat x + unat width * (unat y div 8))) m =
              bit (buffer d ! (unat x + unat width * (unat y div 8))) m) \<and>
           pixel_bit d' x y = (c = WHITE)"
proof -
  have "pixel_index x y < length (buffer d)"
    using assms pixel_index_bound [of x y d] by simp
  then show ?thesis
    using Draw_Pixel_inside [OF assms(3,4,2), of c]
    by (simp add: pixel_bit_def bit_pixel_byte pixel_index_def [symmetric])
qed

theorem Draw_Pixel_sets_or_clears_bit_witness:
  "length (buffer oled64) = buffer_size \<and> height oled64 \<le> 64 \<and> (1::u8) < width \<and>
   (3::u8) < height oled64 \<and>
   (\<exists>d'. Draw_Pixel oled64 1 3 WHITE = Inr d' \<and> buffer d' ! 1 = 0x08 \<and> pixel_bit d' 1 3)"
proof -
  have h: "length (buffer oled64) = buffer_size" "height oled64 \<le> 64" "(1::u8) < width"
    "(3::u8) < height oled64"
    by (simp_all add: oled64_fields width_def)
  have "Draw_Pixel oled64 1 3 WHITE =
      Inr (oled64\<lparr>buffer := (replicate buffer_size 0)[1 := 0x08]\<rparr>)"
    by (simp add: Draw_Pixel_inside [OF h(3,4,2)] pixel_index_def pixel_byte_def oled64_fields
        width_def buffer_size_def)
  with Draw_Pixel_sets_or_clears_bit [OF h, of WHITE] h show ?thesis
    by (auto simp add: buffer_size_def)
qed

text \<open>Claim C4. For every display, every colour and every coordinate with \<open>x \<ge> width\<close> or
  \<open>y \<ge> height\<close>, the pixel write returns without a fault and returns the display as it
  was: no byte of the frame buffer and no other member changes.\<close>

theorem Draw_Pixel_out_of_range_noop:
  "x \<ge> width \<or> y \<ge> height d \<Longrightarrow> Draw_Pixel d x y c = Inr d"
  by (simp add: Draw_Pixel_def)

theorem Draw_Pixel_out_of_range_noop_witness:
  "((200::u8) \<ge> width \<or> (0::u8) \<ge> height oled64) \<and> Draw_Pixel oled64 200 0 WHITE = Inr oled64"
  using Draw_Pixel_out_of_range_noop [where x = 200 and y = 0 and d = oled64 and c = WHITE]
  by (simp add: width_def)

text \<open>Claim C10. On a display of the data model (at most 64 rows), a pixel write with \<open>x < width\<close>
  and \<open>y < height\<close> leaves every byte of the frame buffer other than byte
  \<open>x + width * (y div 8)\<close> as it was, keeps the buffer's length, and changes neither the
  cursor, the font, the initialized flag, \<open>last_error\<close> nor any other member.\<close>

theorem Draw_Pixel_frame:
  assumes "length (buffer d) = buffer_size" and "height d \<le> 64"
    and "x < width" and "y < height d"
  shows "\<exists>d'. Draw_Pixel d x y c = Inr d' \<and>
           length (buffer d') = length (buffer d) \<and>
           (\<forall>j. j \<noteq> unat x + unat width * (unat y div 8) \<longrightarrow> buffer d' ! j = buffer d ! j) \<and>
           Coordinates d' = Coordinates d \<and> font d' = font d \<and>
           isinitialized d' = isinitialized d \<and> last_error d' = last_error d \<and>
           d'\<lparr>buffer := buffer d\<rparr> = d"
  using Draw_Pixel_inside [OF assms(3,4,2), of c]
  by (simp add: pixel_index_def)

theorem Draw_Pixel_frame_witness:
  "length (buffer oled64) = buffer_size \<and> height oled64 \<le> 64 \<and> (1::u8) < width \<and>
   (3::u8) < height oled64 \<and>
   (\<exists>d'. Draw_Pixel oled64 1 3 WHITE = Inr d' \<and> buffer d' ! 0 = 0 \<and> buffer d' ! 2 = 0 \<and>
       last_error d' = 0 \<and> Coordinates d' = \<lparr>X = 0, Y = 0\<rparr>)"
proof -
  have h: "length (buffer oled64) = buffer_size" "height oled64 \<le> 64" "(1::u8) < width"
    "(3::u8) < height oled64"
    by (simp_all add: oled64_fields width_def)
  from Draw_Pixel_frame [OF h, of WHITE] h show ?thesis
    by (auto simp add: oled64_fields buffer_size_def width_def)
qed

section \<open>Cursor\<close>

text \<open>Claim C8, as stated, at the arguments (200, 100) on the 64-row display: the cursor
  does not end inside \<open>[0, width) \<times> [0, height)\<close>.\<close>

theorem Set_Cursor_leaves_half_open_range:
  "\<not> (X (Coordinates (Set_Cursor oled64 200 100)) < width \<and>
      Y (Coordinates (Set_Cursor oled64 200 100)) < height oled64)"
  by (simp add: Set_Cursor_def Let_def width_def oled64_fields)

text \<open>Claim C8, amended. After \<open>Set_Cursor x y\<close> the cursor lies in
  \<open>[0, width] \<times> [0, height]\<close>, both bounds included: an argument below its bound is stored
  unchanged, and an argument greater than or equal to the bound is replaced by the bound
  itself (\<open>width\<close>, \<open>height\<close>), not wrapped.\<close>

theorem Set_Cursor_clamps_to_bound:
  "X (Coordinates (Set_Cursor d x y)) = (if x < width then x else width) \<and>
   Y (Coordinates (Set_Cursor d x y)) = (if y < height d then y else height d) \<and>
   X (Coordinates (Set_Cursor d x y)) \<le> width \<and>
   Y (Coordinates (Set_Cursor d x y)) \<le> height d"
  by (auto simp add: Set_Cursor_def Let_def)

section \<open>Transport, refresh and initialisation\<close>

lemma command_call_cong: "address d' = address d \<Longrightarrow> command_call d' c = command_call d c"
  by (simp add: command_call_def)

lemma Write_Command_fields:
  "conn (Write_Command hal d c) = conn d @ [command_call d c]"
  "height (Write_Command hal d c) = height d"
  "hard_conf (Write_Command hal d c) = hard_conf d"
  "address (Write_Command hal d c) = address d"
  "font (Write_Command hal d c) = font d"
  "buffer (Write_Command hal d c) = buffer d"
  "isinitialized (Write_Command hal d c) = isinitialized d"
  "Coordinates (Write_Command hal d c) = Coordinates d"
  by (simp_all add: Write_Command_def Let_def)

lemma Write_Command_last_error:
  "last_error (Write_Command hal d c) =
     (if hal (conn d) (command_call d c) \<noteq> 0 then hal (conn d) (command_call d c) else last_error d)"
  by (simp add: Write_Command_def Let_def)

lemma Write_Data_fields:
  "conn (Write_Data hal d arr) = conn d @ [data_call d arr]"
  "height (Write_Data hal d arr) = height d"
  "hard_conf (Write_Data hal d arr) = hard_conf d"
  "address (Write_Data hal d arr) = address d"
  "font (Write_Data hal d arr) = font d"
  "buffer (Write_Data hal d arr) = buffer d"
  "isinitialized (Write_Data hal d arr) = isinitialized d"
  "Coordinates (Write_Data hal d arr) = Coordinates d"
  by (simp_all add: Write_Data_def Let_def)

lemma Write_Data_last_error:
  "last_error (Write_Data hal d arr) =
     (if hal (conn d) (data_call d arr) \<noteq> 0 then hal (conn d) (data_call d arr) else last_error d)"
  by (simp add: Write_Data_def Let_def)

lemma Write_Commands_Nil: "Write_Commands hal d [] = d"
  by (simp add: Write_Commands_def)

lemma Write_Commands_Cons:
  "Write_Commands hal d (c # cs) = Write_Commands hal (Write_Command hal d c) cs"
  by (simp add: Write_Commands_def)

lemma Write_Commands_snoc:
  "Write_Commands hal d (cs @ [c]) = Write_Command hal (Write_Commands hal d cs) c"
  by (simp add: Write_Commands_def)

lemma Write_Commands_fields:
  "height (Write_Commands hal d cs) = height d"
  "hard_conf (Write_Commands hal d cs) = hard_conf d"
  "address (Write_Commands hal d cs) = address d"
  "font (Write_Commands hal d cs) = font d"
  "buffer (Write_Commands hal d cs) = buffer d"
  "isinitialized (Write_Commands hal d cs) = isinitialized d"
  "Coordinates (Write_Commands hal d cs) = Coordinates d"
  by (induction cs arbitrary: d; simp add: Write_Commands_Nil Write_Commands_Cons Write_Command_fields)+

lemma Write_Commands_conn:
  "conn (Write_Commands hal d cs) = conn d @ map (command_call d) cs"
  by (induction cs arbitrary: d)
    (simp_all add: Write_Commands_Nil Write_Commands_Cons Write_Command_fields
      command_call_cong [OF Write_Command_fields(4)])

lemma Update_Screen_as_commands:
  "Update_Screen hal d =
     Write_Data hal (Write_Commands hal d [0x21, 0x00, 127, 0x22, 0x00, height d div 8 - 1]) (buffer d)"
  by (simp add: Update_Screen_def Let_def Write_Commands_def Write_Command_fields)

lemma Initialize_as_commands:
  "Initialize hal d =
     (let d1 = Write_Commands hal d
            [0xAE, 0xD5, 0x80, 0xA8, height d - 1, 0xD3, 0x00, 0x40, 0x8D, 0x14, 0xA1, 0xC8,
             0xDA, hard_conf d, 0x81, 150, 0xD9, 0x22, 0xDB, 0x40, 0xA4, 0xA6, 0x20, 0x00,
             0x21, 0x00, width - 1, 0x22, 0x00, height d div 8 - 1, 0xAF];
          d2 = Update_Screen hal (Clean d1)
      in (last_error d2 = 0, d2\<lparr>isinitialized := (last_error d2 = 0)\<rparr>))"
  by (simp add: Initialize_def Let_def Write_Commands_def Write_Command_fields Display_Off_def
      Display_On_def Mirror_Screen_def Flip_Screen_def Invert_Colors_def Set_Brightness_def)

lemma Write_Command_keeps_error:
  "last_error d \<noteq> 0 \<Longrightarrow> last_error (Write_Command hal d c) \<noteq> 0"
  by (simp add: Write_Command_last_error)

lemma Write_Data_keeps_error:
  "last_error d \<noteq> 0 \<Longrightarrow> last_error (Write_Data hal d arr) \<noteq> 0"
  by (simp add: Write_Data_last_error)

lemma Write_Commands_keeps_error:
  "last_error d \<noteq> 0 \<Longrightarrow> last_error (Write_Commands hal d cs) \<noteq> 0"
  by (induction cs arbitrary: d)
    (simp_all add: Write_Commands_Nil Write_Commands_Cons Write_Command_keeps_error)

lemma Write_Commands_quiet:
  "(\<And>tr call. hal tr call = 0) \<Longrightarrow> last_error (Write_Commands hal d cs) = last_error d"
  by (induction cs arbitrary: d)
    (simp_all add: Write_Commands_Nil Write_Commands_Cons Write_Command_last_error)

lemma Fill_fields:
  "conn (Fill d c) = conn d" "height (Fill d c) = height d" "hard_conf (Fill d c) = hard_conf d"
  "address (Fill d c) = address d" "font (Fill d c) = font d"
  "isinitialized (Fill d c) = isinitialized d" "last_error (Fill d c) = last_error d"
  "Coordinates (Fill d c) = Coordinates d"
  "buffer (Fill d c) = map (\<lambda>b. Color_byte c) (buffer d)"
  by (cases c; simp add: Fill_def)+

lemma Update_Screen_keeps_error:
  "last_error d \<noteq> 0 \<Longrightarrow> last_error (Update_Screen hal d) \<noteq> 0"
  by (simp add: Update_Screen_as_commands Write_Data_keeps_error Write_Commands_keeps_error)

lemma Update_Screen_quiet:
  "(\<And>tr call. hal tr call = 0) \<Longrightarrow> last_error (Update_Screen hal d) = last_error d"
  by (simp add: Update_Screen_as_commands Write_Data_last_error Write_Commands_quiet)

lemma Initialize_keeps_error:
  "last_error d \<noteq> 0 \<Longrightarrow> last_error (snd (Initialize hal d)) \<noteq> 0"
  by (simp add: Initialize_as_commands Let_def Update_Screen_keeps_error Clean_def Fill_fields
      Write_Commands_keeps_error)

lemma Initialize_quiet:
  "(\<And>tr call. hal tr call = 0) \<Longrightarrow> last_error (snd (Initialize hal d)) = last_error d"
  by (simp add: Initialize_as_commands Let_def Update_Screen_quiet Clean_def Fill_fields
      Write_Commands_quiet)

lemma Update_Screen_conn:
  "conn (Update_Screen hal d) =
     conn d @ map (command_call d) [0x21, 0x00, 127, 0x22, 0x00, height d div 8 - 1] @
       [data_call d (buffer d)]"
  by (simp add: Update_Screen_as_commands Write_Data_fields Write_Commands_conn
      Write_Commands_fields data_call_def)

lemma Update_Screen_buffer: "buffer (Update_Screen hal d) = buffer d"
  by (simp add: Update_Screen_as_commands Write_Data_fields Write_Commands_fields)

text \<open>Claim C3. For every height, \<open>Update_Screen\<close> appends to the transport exactly six
  command calls (control byte 0x00, one byte each) carrying 0x21, 0x00, 127, 0x22, 0x00,
  \<open>height div 8 - 1\<close> (as a byte), in this order, and then one data call (control byte
  0x40) that hands over the frame buffer with the length \<open>width * height div 8\<close>; the
  buffer itself is not changed. On a display of the data model (a buffer of 1024 bytes,
  at most 64 rows) the bytes on the wire are these six command bytes followed by the first
  \<open>width * height div 8\<close> bytes of the buffer, a block of exactly that length.\<close>

theorem Update_Screen_transmission:
  "conn (Update_Screen hal d) =
     conn d @
     map (\<lambda>c. \<lparr>DevAddress = address d, MemAddress = 0x00, MemAddSize = 1, pData = [c],
               Size = 1, Timeout = 1000\<rparr>)
       [0x21, 0x00, 127, 0x22, 0x00, height d div 8 - 1] @
     [\<lparr>DevAddress = address d, MemAddress = 0x40, MemAddSize = 1, pData = buffer d,
       Size = unat width * unat (height d) div 8, Timeout = 1000\<rparr>] \<and>
   map payload (take 6 (drop (length (conn d)) (conn (Update_Screen hal d)))) =
     [Some [0x21], Some [0x00], Some [127], Some [0x22], Some [0x00],
      Some [height d div 8 - 1]] \<and>
   buffer (Update_Screen hal d) = buffer d \<and>
   (length (buffer d) = buffer_size \<and> height d \<le> 64 \<longrightarrow>
      map payload (drop (length (conn d)) (conn (Update_Screen hal d))) =
        [Some [0x21], Some [0x00], Some [127], Some [0x22], Some [0x00],
         Some [height d div 8 - 1],
         Some (take (unat width * unat (height d) div 8) (buffer d))] \<and>
      length (take (unat width * unat (height d) div 8) (buffer d)) =
        unat width * unat (height d) div 8)"
proof -
  have "height d \<le> 64 \<Longrightarrow> unat width * unat (height d) div 8 \<le> buffer_size"
    by (simp add: word_le_nat_alt width_def buffer_size_def)
  then show ?thesis
    by (simp add: Update_Screen_conn Update_Screen_buffer command_call_def data_call_def
        payload_def control_b_command_def control_b_data_def mult.commute)
qed

theorem Update_Screen_transmission_witness:
  "length (buffer oled64) = buffer_size \<and> height oled64 \<le> 64 \<and>
   map payload (conn (Update_Screen (\<lambda>tr call. 0) (Fill oled64 WHITE))) =
     [Some [0x21], Some [0x00], Some [127], Some [0x22], Some [0x00], Some [7],
      Some (replicate 1024 0xff)] \<and>
   conn (Update_Screen (\<lambda>tr call. 0) (Fill oled64 WHITE)) =
     map (\<lambda>c. \<lparr>DevAddress = 0x78, MemAddress = 0x00, MemAddSize = 1, pData = [c],
               Size = 1, Timeout = 1000\<rparr>)
       [0x21, 0x00, 127, 0x22, 0x00, 7] @
     [\<lparr>DevAddress = 0x78, MemAddress = 0x40, MemAddSize = 1, pData = replicate 1024 0xff,
       Size = 1024, Timeout = 1000\<rparr>]"
proof -
  have h: "length (buffer (Fill oled64 WHITE)) = buffer_size \<and> height (Fill oled64 WHITE) \<le> 64"
    by (simp add: Fill_fields oled64_fields)
  show ?thesis
    using Update_Screen_transmission [of "\<lambda>tr call. 0" "Fill oled64 WHITE"] h
    by (simp add: Fill_fields oled64_fields buffer_size_def width_def payload_def)
qed

text \<open>Claim C2. \<open>Initialize\<close> appends to the transport the 31 command bytes 0xAE, 0xD5,
  0x80, 0xA8, \<open>height - 1\<close>, 0xD3, 0x00, 0x40, 0x8D, 0x14, 0xA1, 0xC8, 0xDA, \<open>hard_conf\<close>,
  0x81, 150, 0xD9, 0x22, 0xDB, 0x40, 0xA4, 0xA6, 0x20, 0x00, 0x21, 0x00, \<open>width - 1\<close>, 0x22,
  0x00, \<open>height div 8 - 1\<close>, 0xAF in this order, each as a one-byte command call (control
  byte 0x00), then fills the frame buffer with 0x00 and performs one \<open>Update_Screen\<close>: its
  six command bytes and one data call (control byte 0x40) handing over the cleared buffer
  with the length \<open>width * height div 8\<close>; nothing else is sent. On a display of the data
  model the bytes on the wire are the 37 command bytes followed by
  \<open>width * height div 8\<close> zero bytes.\<close>

theorem Initialize_command_sequence:
  "conn (snd (Initialize hal d)) =
     conn d @
     map (\<lambda>c. \<lparr>DevAddress = address d, MemAddress = 0x00, MemAddSize = 1, pData = [c],
               Size = 1, Timeout = 1000\<rparr>)
       ([0xAE, 0xD5, 0x80, 0xA8, height d - 1, 0xD3, 0x00, 0x40, 0x8D, 0x14, 0xA1, 0xC8,
         0xDA, hard_conf d, 0x81, 150, 0xD9, 0x22, 0xDB, 0x40, 0xA4, 0xA6, 0x20, 0x00,
         0x21, 0x00, width - 1, 0x22, 0x00, height d div 8 - 1, 0xAF] @
        [0x21, 0x00, 127, 0x22, 0x00, height d div 8 - 1]) @
     [\<lparr>DevAddress = address d, MemAddress = 0x40, MemAddSize = 1,
       pData = replicate (length (buffer d)) 0x00,
       Size = unat width * unat (height d) div 8, Timeout = 1000\<rparr>] \<and>
   map payload (take 37 (drop (length (conn d)) (conn (snd (Initialize hal d))))) =
     map (\<lambda>c. Some [c])
       ([0xAE, 0xD5, 0x80, 0xA8, height d - 1, 0xD3, 0x00, 0x40, 0x8D, 0x14, 0xA1, 0xC8,
         0xDA, hard_conf d, 0x81, 150, 0xD9, 0x22, 0xDB, 0x40, 0xA4, 0xA6, 0x20, 0x00,
         0x21, 0x00, width - 1, 0x22, 0x00, height d div 8 - 1, 0xAF] @
        [0x21, 0x00, 127, 0x22, 0x00, height d div 8 - 1]) \<and>
   buffer (snd (Initialize hal d)) = replicate (length (buffer d)) 0x00 \<and>
   (length (buffer d) = buffer_size \<and> height d \<le> 64 \<longrightarrow>
      map payload (drop (length (conn d)) (conn (snd (Initialize hal d)))) =
        map (\<lambda>c. Some [c])
          ([0xAE, 0xD5, 0x80, 0xA8, height d - 1, 0xD3, 0x00, 0x40, 0x8D, 0x14, 0xA1, 0xC8,
            0xDA, hard_conf d, 0x81, 150, 0xD9, 0x22, 0xDB, 0x40, 0xA4, 0xA6, 0x20, 0x00,
            0x21, 0x00, width - 1, 0x22, 0x00, height d div 8 - 1, 0xAF] @
           [0x21, 0x00, 127, 0x22, 0x00, height d div 8 - 1]) @
        [Some (replicate (unat width * unat (height d) div 8) 0x00)]) \<and>
   snd (Initialize hal d) =
     (let d1 = Write_Commands hal d
            [0xAE, 0xD5, 0x80, 0xA8, height d - 1, 0xD3, 0x00, 0x40, 0x8D, 0x14, 0xA1, 0xC8,
             0xDA, hard_conf d, 0x81, 150, 0xD9, 0x22, 0xDB, 0x40, 0xA4, 0xA6, 0x20, 0x00,
             0x21, 0x00, width - 1, 0x22, 0x00, height d div 8 - 1, 0xAF];
          d2 = Update_Screen hal (Clean d1)
      in d2\<lparr>isinitialized := (last_error d2 = 0)\<rparr>)"
proof -
  let ?S = "[0xAE, 0xD5, 0x80, 0xA8, height d - 1, 0xD3, 0x00, 0x40, 0x8D, 0x14, 0xA1, 0xC8,
        0xDA, hard_conf d, 0x81, 150, 0xD9, 0x22, 0xDB, 0x40, 0xA4, 0xA6, 0x20, 0x00,
        0x21, 0x00, width - 1, 0x22, 0x00, height d div 8 - 1, 0xAF]"
  let ?d1 = "Write_Commands hal d ?S"
  have a: "command_call (Clean ?d1) = command_call d" "data_call (Clean ?d1) = data_call d"
    by (simp_all add: fun_eq_iff command_call_def data_call_def Clean_def Fill_fields
        Write_Commands_fields)
  have b: "conn (Clean ?d1) = conn d @ map (command_call d) ?S"
    "buffer (Clean ?d1) = map (\<lambda>b. 0x00) (buffer d)" "height (Clean ?d1) = height d"
    by (simp_all add: Clean_def Fill_fields Write_Commands_conn Write_Commands_fields)
  have c: "conn (Update_Screen hal (Clean ?d1)) =
      conn d @ map (command_call d) ?S @
      map (command_call d) [0x21, 0x00, 127, 0x22, 0x00, height d div 8 - 1] @
      [data_call d (map (\<lambda>b. 0x00) (buffer d))]"
    by (simp add: Update_Screen_conn a b)
  have e: "buffer (Update_Screen hal (Clean ?d1)) = map (\<lambda>b. 0x00) (buffer d)"
    by (simp add: Update_Screen_buffer b)
  have z: "map (\<lambda>b. 0x00) (buffer d) = replicate (length (buffer d)) (0x00 :: u8)"
    by (simp add: map_replicate_const)
  have s: "height d \<le> 64 \<Longrightarrow> unat width * unat (height d) div 8 \<le> buffer_size"
    by (simp add: word_le_nat_alt width_def buffer_size_def)
  have 1: "conn (snd (Initialize hal d)) = conn (Update_Screen hal (Clean ?d1))"
    "buffer (snd (Initialize hal d)) = buffer (Update_Screen hal (Clean ?d1))"
    by (simp_all add: Initialize_as_commands Let_def)
  have 2: "snd (Initialize hal d) =
     (let d1 = ?d1; d2 = Update_Screen hal (Clean d1)
      in d2\<lparr>isinitialized := (last_error d2 = 0)\<rparr>)"
    by (simp add: Initialize_as_commands Let_def)
  have 3: "conn (snd (Initialize hal d)) =
     conn d @
     map (\<lambda>c. \<lparr>DevAddress = address d, MemAddress = 0x00, MemAddSize = 1, pData = [c],
               Size = 1, Timeout = 1000\<rparr>)
       (?S @ [0x21, 0x00, 127, 0x22, 0x00, height d div 8 - 1]) @
     [\<lparr>DevAddress = address d, MemAddress = 0x40, MemAddSize = 1,
       pData = replicate (length (buffer d)) 0x00,
       Size = unat width * unat (height d) div 8, Timeout = 1000\<rparr>]"
    unfolding 1 c z
    by (simp add: command_call_def data_call_def control_b_command_def control_b_data_def
        mult.commute)
  have 4: "map payload (take 37 (drop (length (conn d)) (conn (snd (Initialize hal d))))) =
     map (\<lambda>c. Some [c]) (?S @ [0x21, 0x00, 127, 0x22, 0x00, height d div 8 - 1])"
    unfolding 3 by (simp add: payload_def)
  have 6: "length (buffer d) = buffer_size \<and> height d \<le> 64 \<longrightarrow>
      map payload (drop (length (conn d)) (conn (snd (Initialize hal d)))) =
        map (\<lambda>c. Some [c]) (?S @ [0x21, 0x00, 127, 0x22, 0x00, height d div 8 - 1]) @
        [Some (replicate (unat width * unat (height d) div 8) 0x00)]"
    unfolding 3 using s by (simp add: payload_def min_def)
  have 7: "buffer (snd (Initialize hal d)) = replicate (length (buffer d)) 0x00"
    unfolding 1 e z ..
  from 2 3 4 6 7 show ?thesis
    by blast
qed

theorem Initialize_command_sequence_witness:
  "length (buffer oled64) = buffer_size \<and> height oled64 \<le> 64 \<and>
   map payload (conn (snd (Initialize (\<lambda>tr call. 0) oled64))) =
     map (\<lambda>c. Some [c])
       [0xAE, 0xD5, 0x80, 0xA8, 63, 0xD3, 0x00, 0x40, 0x8D, 0x14, 0xA1, 0xC8,
        0xDA, 0x12, 0x81, 150, 0xD9, 0x22, 0xDB, 0x40, 0xA4, 0xA6, 0x20, 0x00,
        0x21, 0x00, 127, 0x22, 0x00, 7, 0xAF, 0x21, 0x00, 127, 0x22, 0x00, 7] @
     [Some (replicate 1024 0x00)]"
proof -
  have h: "length (buffer oled64) = buffer_size \<and> height oled64 \<le> 64"
    by (simp add: oled64_fields)
  show ?thesis
    using Initialize_command_sequence [of "\<lambda>tr call. 0" oled64,
        THEN conjunct2, THEN conjunct2, THEN conjunct2, THEN conjunct1] h
    by (simp add: oled64_fields buffer_size_def width_def)
qed

text \<open>Claim C7. \<open>Initialize\<close> returns true exactly when \<open>last_error\<close> is 0 after the whole
  sequence, and the initialized flag equals the returned value. It never resets
  \<open>last_error\<close>: a nonzero value latched before the call makes it return false whatever
  the transport answers, and when every transport call succeeds \<open>last_error\<close> is what it
  was. The constructor called with a height above 64 leaves \<open>last_error\<close> at 0xff and makes
  no call on the transport.\<close>

theorem Initialize_success_report:
  "fst (Initialize hal d) = (last_error (snd (Initialize hal d)) = 0) \<and>
   isinitialized (snd (Initialize hal d)) = fst (Initialize hal d) \<and>
   (last_error d \<noteq> 0 \<longrightarrow> \<not> fst (Initialize hal d)) \<and>
   ((\<forall>tr call. hal tr call = 0) \<longrightarrow> last_error (snd (Initialize hal d)) = last_error d) \<and>
   (screen_height > 64 \<longrightarrow>
      last_error (SSD1306_ctor f raw port screen_height hc addr) = 0xff \<and>
      conn (SSD1306_ctor f raw port screen_height hc addr) = port)"
proof -
  have 1: "fst (Initialize hal d) = (last_error (snd (Initialize hal d)) = 0)"
    "isinitialized (snd (Initialize hal d)) = fst (Initialize hal d)"
    by (simp_all add: Initialize_as_commands Let_def)
  have 2: "last_error d \<noteq> 0 \<longrightarrow> \<not> fst (Initialize hal d)"
    using Initialize_keeps_error [of d hal] 1 by simp
  have 3: "(\<forall>tr call. hal tr call = 0) \<longrightarrow> last_error (snd (Initialize hal d)) = last_error d"
    using Initialize_quiet [of hal d] by simp
  have 4: "screen_height > 64 \<longrightarrow>
      last_error (SSD1306_ctor f raw port screen_height hc addr) = 0xff \<and>
      conn (SSD1306_ctor f raw port screen_height hc addr) = port"
    by (simp add: SSD1306_ctor_def Let_def)
  from 1 2 3 4 show ?thesis by simp
qed

theorem Initialize_success_report_witness:
  "(65::u8) > 64 \<and>
   last_error (SSD1306_ctor font_7x10_upto_8 static_storage [] 65 ALT_NOREMAP 0x78) \<noteq> 0 \<and>
   (\<forall>tr call. (\<lambda>tr call. 0::int) tr call = 0) \<and>
   \<not> fst (Initialize (\<lambda>tr call. 0) (SSD1306_ctor font_7x10_upto_8 static_storage [] 65 ALT_NOREMAP 0x78)) \<and>
   last_error (snd (Initialize (\<lambda>tr call. 0)
      (SSD1306_ctor font_7x10_upto_8 static_storage [] 65 ALT_NOREMAP 0x78))) = 0xff \<and>
   fst (Initialize (\<lambda>tr call. 0) oled64)"
proof -
  let ?d = "SSD1306_ctor font_7x10_upto_8 static_storage [] 65 ALT_NOREMAP 0x78"
  have a: "(65::u8) > 64"
    by simp
  have b: "last_error ?d = 0xff"
    using Initialize_success_report [where screen_height = 65 and f = font_7x10_upto_8
        and raw = static_storage and port = "[]" and hc = ALT_NOREMAP and addr = "0x78"] a
    by simp
  have c: "\<not> fst (Initialize (\<lambda>tr call. 0) ?d) \<and> last_error (snd (Initialize (\<lambda>tr call. 0) ?d)) = 0xff"
    using Initialize_success_report [where hal = "\<lambda>tr call. 0" and d = ?d] b by simp
  have e: "fst (Initialize (\<lambda>tr call. 0) oled64)"
    using Initialize_success_report [where hal = "\<lambda>tr call. 0" and d = oled64]
    by (simp add: oled64_fields)
  from a b c e show ?thesis by simp
qed

section \<open>Sequences of pixel writes, loops and lines\<close>

lemma unat_succ_below: "(i::u8) < n \<Longrightarrow> unat (i + 1) = Suc (unat i)"
proof -
  assume "i < n"
  then have "unat i < unat n"
    by (simp add: word_less_nat_alt)
  moreover have "unat n < 256"
    using unsigned_less [of n, where ?'a = nat] by simp
  ultimately show ?thesis
    by (simp add: unat_word_ariths)
qed

lemma Draw_Pixels_append:
  "Draw_Pixels d (ps @ qs) =
     (case Draw_Pixels d ps of Inl e \<Rightarrow> Inl e | Inr d' \<Rightarrow> Draw_Pixels d' qs)"
  by (induction ps arbitrary: d) (auto split: sum.splits)

lemma Draw_Pixel_other_members:
  "Draw_Pixel d x y c = Inr d' \<Longrightarrow> d'\<lparr>buffer := b\<rparr> = d\<lparr>buffer := b\<rparr>"
  by (auto simp add: Draw_Pixel_def Let_def split: if_splits)

lemma Draw_Pixels_other_members:
  "Draw_Pixels d ps = Inr d' \<Longrightarrow> d'\<lparr>buffer := b\<rparr> = d\<lparr>buffer := b\<rparr>"
proof (induction ps arbitrary: d)
  case Nil
  then show ?case by simp
next
  case (Cons p ps)
  obtain x y c where p: "p = (x, y, c)"
    by (cases p)
  from Cons.prems p obtain d1 where 1: "Draw_Pixel d x y c = Inr d1" and 2: "Draw_Pixels d1 ps = Inr d'"
    by (auto split: sum.splits)
  from Cons.IH [OF 2] Draw_Pixel_other_members [OF 1] show ?case
    by simp
qed

lemma for_u8_Draw_Pixels:
  assumes inv: "\<And>s ps s'. P s \<Longrightarrow> Draw_Pixels s ps = Inr s' \<Longrightarrow> P s'"
  shows "(\<And>s. P s \<Longrightarrow> bound s = n) \<Longrightarrow>
    (\<And>i s. P s \<Longrightarrow> i < n \<Longrightarrow> body i s = Draw_Pixels s (pix i)) \<Longrightarrow> P s \<Longrightarrow>
    for_u8 bound body i s = Draw_Pixels s (concat (map (\<lambda>k. pix (of_nat k)) [unat i..<unat n]))"
proof (induction bound body i s rule: for_u8.induct)
  case (1 bound body i s)
  note P = \<open>P s\<close> and bnd = "1.prems"(1) and bod = "1.prems"(2)
  show ?case
  proof (cases "i < n")
    case True
    then have lt: "unat i < unat n"
      by (simp add: word_less_nat_alt)
    have suc: "unat (i + 1) = Suc (unat i)"
      using True by (rule unat_succ_below)
    have list: "[unat i..<unat n] = unat i # [unat (i + 1)..<unat n]"
      using lt suc by (simp add: upt_conv_Cons)
    show ?thesis
    proof (cases "Draw_Pixels s (pix i)")
      case (Inl e)
      then show ?thesis
        using True P
        by (subst for_u8.simps) (simp add: bnd bod list Draw_Pixels_append)
    next
      case (Inr s')
      have P': "P s'"
        using P Inr by (rule inv)
      have "for_u8 bound body (i + 1) s' =
          Draw_Pixels s' (concat (map (\<lambda>k. pix (of_nat k)) [unat (i + 1)..<unat n]))"
        using True P Inr by (intro "1.IH" [of s'] bnd bod P') (simp_all add: bnd bod)
      then show ?thesis
        using True P Inr
        by (subst for_u8.simps) (simp add: bnd bod list Draw_Pixels_append)
    qed
  next
    case False
    then show ?thesis
      using P by (subst for_u8.simps) (simp add: bnd word_less_nat_alt)
  qed
qed

lemma Draw_Line_H_as_pixels:
  "Draw_Line_H d x y len c = Draw_Pixels d (map (\<lambda>i. (x + of_nat i, y, c)) [0..<unat len])"
proof -
  have "for_u8 (\<lambda>d. len) (\<lambda>i d. Draw_Pixel d (x + i) y c) 0 d =
      Draw_Pixels d (concat (map (\<lambda>k. [(x + of_nat k, y, c)]) [unat (0::u8)..<unat len]))"
    by (rule for_u8_Draw_Pixels [where P = "\<lambda>s. True"]) (simp_all split: sum.splits)
  then show ?thesis
    by (simp add: Draw_Line_H_def concat_map_singleton)
qed

lemma Draw_Line_V_as_pixels:
  "Draw_Line_V d x y len c = Draw_Pixels d (map (\<lambda>i. (x, y + of_nat i, c)) [0..<unat len])"
proof -
  have "for_u8 (\<lambda>d. len) (\<lambda>i d. Draw_Pixel d x (y + i) c) 0 d =
      Draw_Pixels d (concat (map (\<lambda>k. [(x, y + of_nat k, c)]) [unat (0::u8)..<unat len]))"
    by (rule for_u8_Draw_Pixels [where P = "\<lambda>s. True"]) (simp_all split: sum.splits)
  then show ?thesis
    by (simp add: Draw_Line_V_def concat_map_singleton)
qed

lemma Draw_Pixel_plot:
  assumes "length (buffer d) = buffer_size" "height d \<le> 64"
  shows "Draw_Pixel d x y c = Inr (d\<lparr>buffer := plot (height d) (buffer d) (x, y, c)\<rparr>)"
proof (cases "x < width \<and> y < height d")
  case True
  then show ?thesis
    using Draw_Pixel_inside [where x = x and y = y and d = d and c = c] assms(2) by simp
next
  case False
  then show ?thesis
    using Draw_Pixel_outside [where x = x and y = y and d = d and c = c]
    by (auto simp add: not_less)
qed

lemma length_plot: "length (plot h buf p) = length buf"
  by (cases p) simp

lemma length_foldl_plot: "length (foldl (plot h) buf ps) = length buf"
  by (induction ps arbitrary: buf) (simp_all add: length_plot)

lemma Draw_Pixels_plot:
  "length (buffer d) = buffer_size \<Longrightarrow> height d \<le> 64 \<Longrightarrow>
   Draw_Pixels d ps = Inr (d\<lparr>buffer := foldl (plot (height d)) (buffer d) ps\<rparr>)"
proof (induction ps arbitrary: d)
  case Nil
  then show ?case by simp
next
  case (Cons p ps)
  obtain x y c where p: "p = (x, y, c)"
    by (cases p)
  let ?d1 = "d\<lparr>buffer := plot (height d) (buffer d) (x, y, c)\<rparr>"
  have 1: "Draw_Pixel d x y c = Inr ?d1"
    using Cons.prems by (rule Draw_Pixel_plot)
  have "length (buffer ?d1) = buffer_size" "height ?d1 \<le> 64"
    using Cons.prems by (simp_all add: length_plot del: plot.simps)
  from Cons.IH [OF this] 1 show ?case
    by (simp add: p del: plot.simps)
qed

lemma pixel_index_inject:
  assumes "x < width" "x' < width" "pixel_index x y = pixel_index x' y'"
    "unat y mod 8 = unat y' mod 8"
  shows "x = x' \<and> y = y'"
proof -
  have a: "unat x < 128" "unat x' < 128"
    using assms(1,2) by (simp_all add: width_def word_less_nat_alt)
  have e: "unat x + 128 * (unat y div 8) = unat x' + 128 * (unat y' div 8)"
    using assms(3) by (simp add: pixel_index_def width_def)
  have "(unat x + 128 * (unat y div 8)) mod 128 = unat x"
    "(unat x' + 128 * (unat y' div 8)) mod 128 = unat x'"
    using a by simp_all
  with e have x: "unat x = unat x'"
    by simp
  with e have "unat y div 8 = unat y' div 8"
    by simp
  with assms(4) have "unat y = unat y'"
    by (metis div_mult_mod_eq)
  with x show ?thesis
    by (simp add: word_unat_eq_iff)
qed

lemma bit_plot:
  "bit (plot h buf (x, y, c) ! j) m =
     (if x < width \<and> y < h \<and> j = pixel_index x y \<and> j < length buf \<and> m = unat y mod 8
      then c = WHITE else bit (buf ! j) m)"
proof (cases "pixel_index x y < length buf")
  case True
  then show ?thesis
    by (auto simp add: bit_pixel_byte nth_list_update)
next
  case False
  then have "buf[pixel_index x y := pixel_byte (buf ! pixel_index x y) y c] = buf"
    by (simp add: list_update_beyond)
  with False show ?thesis
    by auto
qed

lemma foldl_plot_only_touched:
  "bit (foldl (plot h) buf ps ! j) m \<noteq> bit (buf ! j) m \<Longrightarrow>
   \<exists>x y c. (x, y, c) \<in> set ps \<and> x < width \<and> y < h \<and> j = pixel_index x y \<and> m = unat y mod 8"
proof (induction ps rule: rev_induct)
  case Nil
  then show ?case by simp
next
  case (snoc p ps)
  obtain x y c where p: "p = (x, y, c)"
    by (cases p)
  show ?case
  proof (cases "x < width \<and> y < h \<and> j = pixel_index x y \<and> m = unat y mod 8")
    case True
    then show ?thesis
      using p by auto
  next
    case False
    then have "bit (foldl (plot h) buf (ps @ [p]) ! j) m = bit (foldl (plot h) buf ps ! j) m"
      unfolding p foldl_append foldl_Cons foldl_Nil bit_plot by auto
    with snoc.prems have "bit (foldl (plot h) buf ps ! j) m \<noteq> bit (buf ! j) m"
      by simp
    from snoc.IH [OF this] show ?thesis
      by auto
  qed
qed

lemma foldl_plot_written:
  assumes "(x, y, c) \<in> set ps" and "x < width" and "y < h" and "pixel_index x y < length buf"
    and "\<And>c'. (x, y, c') \<in> set ps \<Longrightarrow> c' = c"
  shows "bit (foldl (plot h) buf ps ! pixel_index x y) (unat y mod 8) = (c = WHITE)"
  using assms(1,5)
proof (induction ps rule: rev_induct)
  case Nil
  then show ?case by simp
next
  case (snoc p ps)
  obtain x' y' c' where p: "p = (x', y', c')"
    by (cases p)
  have len: "pixel_index x y < length (foldl (plot h) buf ps)"
    using assms(4) by (simp add: length_foldl_plot)
  show ?case
  proof (cases "x' = x \<and> y' = y")
    case True
    then have "c' = c"
      using snoc.prems(2) [of c'] p by simp
    then show ?thesis
      using True assms(2,3) len
      unfolding p foldl_append foldl_Cons foldl_Nil bit_plot by simp
  next
    case False
    then have in_ps: "(x, y, c) \<in> set ps"
      using snoc.prems(1) p by auto
    have same: "\<And>c'. (x, y, c') \<in> set ps \<Longrightarrow> c' = c"
      using snoc.prems(2) by simp
    have "\<not> (x' < width \<and> pixel_index x y = pixel_index x' y' \<and> unat y mod 8 = unat y' mod 8)"
      using False pixel_index_inject [of x x' y y'] assms(2) by auto
    then have "bit (foldl (plot h) buf (ps @ [p]) ! pixel_index x y) (unat y mod 8) =
        bit (foldl (plot h) buf ps ! pixel_index x y) (unat y mod 8)"
      unfolding p foldl_append foldl_Cons foldl_Nil bit_plot by auto
    with snoc.IH [OF in_ps same] show ?thesis
      by simp
  qed
qed

lemma Draw_Pixels_effect:
  assumes "length (buffer d) = buffer_size" and "height d \<le> 64"
  shows "\<exists>d'. Draw_Pixels d ps = Inr d' \<and> d'\<lparr>buffer := buffer d\<rparr> = d \<and>
      length (buffer d') = length (buffer d) \<and>
      (\<forall>j m. bit (buffer d' ! j) m \<noteq> bit (buffer d ! j) m \<longrightarrow>
         (\<exists>x y c. (x, y, c) \<in> set ps \<and> x < width \<and> y < height d \<and>
            j = pixel_index x y \<and> m = unat y mod 8)) \<and>
      (\<forall>x y c. (x, y, c) \<in> set ps \<and> x < width \<and> y < height d \<and>
         (\<forall>c'. (x, y, c') \<in> set ps \<longrightarrow> c' = c) \<longrightarrow> pixel_bit d' x y = (c = WHITE))"
proof -
  let ?b = "foldl (plot (height d)) (buffer d) ps"
  have 1: "Draw_Pixels d ps = Inr (d\<lparr>buffer := ?b\<rparr>)"
    using assms by (rule Draw_Pixels_plot)
  have 2: "\<forall>j m. bit (?b ! j) m \<noteq> bit (buffer d ! j) m \<longrightarrow>
         (\<exists>x y c. (x, y, c) \<in> set ps \<and> x < width \<and> y < height d \<and>
            j = pixel_index x y \<and> m = unat y mod 8)"
    using foldl_plot_only_touched [of "height d" "buffer d" ps] by blast
  have 3: "\<forall>x y c. (x, y, c) \<in> set ps \<and> x < width \<and> y < height d \<and>
         (\<forall>c'. (x, y, c') \<in> set ps \<longrightarrow> c' = c) \<longrightarrow>
         bit (?b ! pixel_index x y) (unat y mod 8) = (c = WHITE)"
  proof (intro allI impI)
    fix x y c
    assume a: "(x, y, c) \<in> set ps \<and> x < width \<and> y < height d \<and>
         (\<forall>c'. (x, y, c') \<in> set ps \<longrightarrow> c' = c)"
    then have "pixel_index x y < length (buffer d)"
      using pixel_index_bound [of x y d] assms by simp
    with a show "bit (?b ! pixel_index x y) (unat y mod 8) = (c = WHITE)"
      by (intro foldl_plot_written) auto
  qed
  show ?thesis
    using 1 2 3 by (simp add: length_foldl_plot pixel_bit_def)
qed

text \<open>Claim C9, amended. \<open>Draw_Line_H x y len c\<close> is exactly the sequence of the \<open>len\<close>
  calls \<open>Draw_Pixel ((x + i) mod 256) y c\<close> for \<open>i = 0..len - 1\<close>, in this order, and
  \<open>Draw_Line_V x y len c\<close> the calls \<open>Draw_Pixel x ((y + i) mod 256) c\<close>: the sums are
  8-bit. On a display of at most 64 rows both return without a fault, change nothing
  but the frame buffer, change in it only bits of pixels \<open>((x + i) mod 256, y)\<close>
  (respectively \<open>(x, (y + i) mod 256)\<close>) that lie inside \<open>[0, width) \<times> [0, height)\<close>, and
  leave each of these pixels with the colour \<open>c\<close>.\<close>

theorem Draw_Line_pixel_calls:
  "Draw_Line_H d x y len c = Draw_Pixels d (map (\<lambda>i. (x + of_nat i, y, c)) [0..<unat len]) \<and>
   Draw_Line_V d x y len c = Draw_Pixels d (map (\<lambda>i. (x, y + of_nat i, c)) [0..<unat len]) \<and>
   (length (buffer d) = buffer_size \<and> height d \<le> 64 \<longrightarrow>
      (\<exists>d'. Draw_Line_H d x y len c = Inr d' \<and> d'\<lparr>buffer := buffer d\<rparr> = d \<and>
         length (buffer d') = length (buffer d) \<and>
         (\<forall>j m. bit (buffer d' ! j) m \<noteq> bit (buffer d ! j) m \<longrightarrow>
            (\<exists>i<unat len. x + of_nat i < width \<and> y < height d \<and>
               j = pixel_index (x + of_nat i) y \<and> m = unat y mod 8)) \<and>
         (\<forall>i<unat len. x + of_nat i < width \<and> y < height d \<longrightarrow>
            pixel_bit d' (x + of_nat i) y = (c = WHITE))) \<and>
      (\<exists>d'. Draw_Line_V d x y len c = Inr d' \<and> d'\<lparr>buffer := buffer d\<rparr> = d \<and>
         length (buffer d') = length (buffer d) \<and>
         (\<forall>j m. bit (buffer d' ! j) m \<noteq> bit (buffer d ! j) m \<longrightarrow>
            (\<exists>i<unat len. x < width \<and> y + of_nat i < height d \<and>
               j = pixel_index x (y + of_nat i) \<and> m = unat (y + of_nat i) mod 8)) \<and>
         (\<forall>i<unat len. x < width \<and> y + of_nat i < height d \<longrightarrow>
            pixel_bit d' x (y + of_nat i) = (c = WHITE))))"
proof (intro conjI impI)
  show "Draw_Line_H d x y len c = Draw_Pixels d (map (\<lambda>i. (x + of_nat i, y, c)) [0..<unat len])"
    by (rule Draw_Line_H_as_pixels)
  show "Draw_Line_V d x y len c = Draw_Pixels d (map (\<lambda>i. (x, y + of_nat i, c)) [0..<unat len])"
    by (rule Draw_Line_V_as_pixels)
next
  assume a: "length (buffer d) = buffer_size \<and> height d \<le> 64"
  let ?ps = "map (\<lambda>i. (x + of_nat i, y, c)) [0..<unat len]"
  from a Draw_Pixels_effect [of d ?ps] obtain d' where
    d': "Draw_Pixels d ?ps = Inr d'" "d'\<lparr>buffer := buffer d\<rparr> = d"
      "length (buffer d') = length (buffer d)"
    and only: "\<And>j m. bit (buffer d' ! j) m \<noteq> bit (buffer d ! j) m \<Longrightarrow>
         \<exists>px py pc. (px, py, pc) \<in> set ?ps \<and> px < width \<and> py < height d \<and>
            j = pixel_index px py \<and> m = unat py mod 8"
    and written: "\<And>px py pc. (px, py, pc) \<in> set ?ps \<Longrightarrow> px < width \<Longrightarrow> py < height d \<Longrightarrow>
         (\<forall>c'. (px, py, c') \<in> set ?ps \<longrightarrow> c' = pc) \<Longrightarrow> pixel_bit d' px py = (pc = WHITE)"
    by blast
  have "\<forall>j m. bit (buffer d' ! j) m \<noteq> bit (buffer d ! j) m \<longrightarrow>
            (\<exists>i<unat len. x + of_nat i < width \<and> y < height d \<and>
               j = pixel_index (x + of_nat i) y \<and> m = unat y mod 8)"
    using only by fastforce
  moreover have "\<forall>i<unat len. x + of_nat i < width \<and> y < height d \<longrightarrow>
            pixel_bit d' (x + of_nat i) y = (c = WHITE)"
  proof (intro allI impI)
    fix i assume "i < unat len" and "x + of_nat i < width \<and> y < height d"
    then show "pixel_bit d' (x + of_nat i) y = (c = WHITE)"
      by (intro written) auto
  qed
  ultimately show "\<exists>d'. Draw_Line_H d x y len c = Inr d' \<and> d'\<lparr>buffer := buffer d\<rparr> = d \<and>
         length (buffer d') = length (buffer d) \<and>
         (\<forall>j m. bit (buffer d' ! j) m \<noteq> bit (buffer d ! j) m \<longrightarrow>
            (\<exists>i<unat len. x + of_nat i < width \<and> y < height d \<and>
               j = pixel_index (x + of_nat i) y \<and> m = unat y mod 8)) \<and>
         (\<forall>i<unat len. x + of_nat i < width \<and> y < height d \<longrightarrow>
            pixel_bit d' (x + of_nat i) y = (c = WHITE))"
    using d' by (simp add: Draw_Line_H_as_pixels)
next
  assume a: "length (buffer d) = buffer_size \<and> height d \<le> 64"
  let ?ps = "map (\<lambda>i. (x, y + of_nat i, c)) [0..<unat len]"
  from a Draw_Pixels_effect [of d ?ps] obtain d' where
    d': "Draw_Pixels d ?ps = Inr d'" "d'\<lparr>buffer := buffer d\<rparr> = d"
      "length (buffer d') = length (buffer d)"
    and only: "\<And>j m. bit (buffer d' ! j) m \<noteq> bit (buffer d ! j) m \<Longrightarrow>
         \<exists>px py pc. (px, py, pc) \<in> set ?ps \<and> px < width \<and> py < height d \<and>
            j = pixel_index px py \<and> m = unat py mod 8"
    and written: "\<And>px py pc. (px, py, pc) \<in> set ?ps \<Longrightarrow> px < width \<Longrightarrow> py < height d \<Longrightarrow>
         (\<forall>c'. (px, py, c') \<in> set ?ps \<longrightarrow> c' = pc) \<Longrightarrow> pixel_bit d' px py = (pc = WHITE)"
    by blast
  have "\<forall>j m. bit (buffer d' ! j) m \<noteq> bit (buffer d ! j) m \<longrightarrow>
            (\<exists>i<unat len. x < width \<and> y + of_nat i < height d \<and>
               j = pixel_index x (y + of_nat i) \<and> m = unat (y + of_nat i) mod 8)"
    using only by fastforce
  moreover have "\<forall>i<unat len. x < width \<and> y + of_nat i < height d \<longrightarrow>
            pixel_bit d' x (y + of_nat i) = (c = WHITE)"
  proof (intro allI impI)
    fix i assume "i < unat len" and "x < width \<and> y + of_nat i < height d"
    then show "pixel_bit d' x (y + of_nat i) = (c = WHITE)"
      by (intro written) auto
  qed
  ultimately show "\<exists>d'. Draw_Line_V d x y len c = Inr d' \<and> d'\<lparr>buffer := buffer d\<rparr> = d \<and>
         length (buffer d') = length (buffer d) \<and>
         (\<forall>j m. bit (buffer d' ! j) m \<noteq> bit (buffer d ! j) m \<longrightarrow>
            (\<exists>i<unat len. x < width \<and> y + of_nat i < height d \<and>
               j = pixel_index x (y + of_nat i) \<and> m = unat (y + of_nat i) mod 8)) \<and>
         (\<forall>i<unat len. x < width \<and> y + of_nat i < height d \<longrightarrow>
            pixel_bit d' x (y + of_nat i) = (c = WHITE))"
    using d' by (simp add: Draw_Line_V_as_pixels)
qed

theorem Draw_Line_pixel_calls_witness:
  "length (buffer oled64) = buffer_size \<and> height oled64 \<le> 64 \<and>
   pixel_after (Draw_Line_H oled64 2 3 10 WHITE) 5 3 = Some True \<and>
   pixel_after (Draw_Line_V oled64 1 1 5 WHITE) 1 3 = Some True"
proof -
  have h: "length (buffer oled64) = buffer_size \<and> height oled64 \<le> 64"
    by (simp add: oled64_fields)
  note t = Draw_Line_pixel_calls [where d = oled64 and c = WHITE, THEN conjunct2, THEN conjunct2,
      rule_format, OF h]
  from t [where x = 2 and y = 3 and len = 10, THEN conjunct1] obtain d1 where
    1: "Draw_Line_H oled64 2 3 10 WHITE = Inr d1"
    and 2: "\<forall>i<unat (10::u8). 2 + of_nat i < width \<and> (3::u8) < height oled64 \<longrightarrow>
            pixel_bit d1 (2 + of_nat i) 3 = (WHITE = WHITE)"
    by blast
  from 2 [rule_format, of 3] have "pixel_bit d1 5 3"
    by (simp add: width_def oled64_fields)
  with 1 have a: "pixel_after (Draw_Line_H oled64 2 3 10 WHITE) 5 3 = Some True"
    by (simp add: pixel_after_def)
  from t [where x = 1 and y = 1 and len = 5, THEN conjunct2] obtain d2 where
    3: "Draw_Line_V oled64 1 1 5 WHITE = Inr d2"
    and 4: "\<forall>i<unat (5::u8). (1::u8) < width \<and> 1 + of_nat i < height oled64 \<longrightarrow>
            pixel_bit d2 1 (1 + of_nat i) = (WHITE = WHITE)"
    by blast
  from 4 [rule_format, of 2] have "pixel_bit d2 1 3"
    by (simp add: width_def oled64_fields)
  with 3 have b: "pixel_after (Draw_Line_V oled64 1 1 5 WHITE) 1 3 = Some True"
    by (simp add: pixel_after_def)
  from h a b show ?thesis
    by simp
qed

text \<open>Claim C9, as stated, at \<open>Draw_Line_H(250, 0, 10, WHITE)\<close> on the blank 64-row display.
  The points \<open>(250 + i, 0)\<close> for \<open>i = 0..9\<close> have the columns 250 to 259, none of them inside
  \<open>[0, width)\<close>, and column 0 is not among them; yet the pixel (0, 0) is lit afterwards:
  the coordinate handed to \<open>Draw_Pixel\<close> is a byte, and 250 + 6 wraps to 0. And on a
  display constructed with 65 rows the one pixel of \<open>Draw_Line_V(0, 64, 1, WHITE)\<close> is in
  range and is written past the end of the buffer.\<close>

theorem Draw_Line_H_wraps_to_left_edge:
  "\<not> pixel_bit oled64 0 0 \<and>
   pixel_after (Draw_Line_H oled64 250 0 10 WHITE) 0 0 = Some True \<and>
   (0::nat) \<notin> set (map ((+) 250) [0..<10]) \<and>
   Draw_Line_V oled65 0 64 1 WHITE = Inl Buffer_Index"
proof -
  let ?ps = "map (\<lambda>i. (250 + of_nat i :: u8, 0 :: u8, WHITE)) [0..<unat (10::u8)]"
  have h: "length (buffer oled64) = buffer_size" "height oled64 \<le> 64"
    by (simp_all add: oled64_fields)
  from Draw_Pixels_effect [OF h, of ?ps] obtain d' where
    d': "Draw_Pixels oled64 ?ps = Inr d'"
    and written: "\<And>px py pc. (px, py, pc) \<in> set ?ps \<Longrightarrow> px < width \<Longrightarrow> py < height oled64 \<Longrightarrow>
         (\<forall>c'. (px, py, c') \<in> set ?ps \<longrightarrow> c' = pc) \<Longrightarrow> pixel_bit d' px py = (pc = WHITE)"
    by blast
  have "(6::nat) \<in> set [0..<unat (10::u8)]"
    by simp
  then have "(250 + of_nat 6 :: u8, 0 :: u8, WHITE) \<in> set ?ps"
    unfolding set_map by (rule imageI)
  moreover have "(250 + of_nat 6 :: u8) = 0"
    by simp
  ultimately have "(0, 0, WHITE) \<in> set ?ps"
    by (simp only:)
  then have "pixel_bit d' 0 0 = (WHITE = WHITE)"
    by (intro written) (auto simp add: width_def oled64_fields)
  then have "pixel_after (Draw_Line_H oled64 250 0 10 WHITE) 0 0 = Some True"
    using d' by (simp add: pixel_after_def Draw_Line_H_as_pixels)
  moreover have "\<not> pixel_bit oled64 0 0"
    by (simp add: pixel_bit_def pixel_index_def oled64_fields buffer_size_def)
  moreover have "(0::nat) \<notin> set (map ((+) 250) [0..<10])"
    by auto
  moreover have "Draw_Line_V oled65 0 64 1 WHITE = Inl Buffer_Index"
    using Draw_Pixel_past_buffer [of 0 oled65 WHITE]
    by (simp add: Draw_Line_V_as_pixels width_def oled65_fields)
  ultimately show ?thesis
    by simp
qed

section \<open>The latched error\<close>

lemma for_u8_invariant_aux:
  "\<forall>i s s'. Q s \<longrightarrow> body i s = Inr s' \<longrightarrow> Q s' \<Longrightarrow> Q s \<Longrightarrow>
   for_u8 bound body i s = Inr s' \<Longrightarrow> Q s'"
proof (induction bound body i s rule: for_u8.induct)
  case (1 bound body i s)
  show ?case
  proof (cases "i < bound s")
    case True
    have "for_u8 bound body i s =
        (case body i s of Inl e \<Rightarrow> Inl e | Inr s1 \<Rightarrow> for_u8 bound body (i + 1) s1)"
      using True by (subst for_u8.simps) simp
    with "1.prems"(3) obtain s1 where b: "body i s = Inr s1"
      and r: "for_u8 bound body (i + 1) s1 = Inr s'"
      by (cases "body i s") simp_all
    have "Q s1"
      using "1.prems"(1,2) b by blast
    from "1.IH" [OF True b "1.prems"(1) this r] show ?thesis .
  next
    case False
    have "for_u8 bound body i s = Inr s"
      using False by (subst for_u8.simps) simp
    with "1.prems"(2,3) show ?thesis
      by simp
  qed
qed

lemma for_u8_invariant:
  assumes "\<And>i s s'. Q s \<Longrightarrow> body i s = Inr s' \<Longrightarrow> Q s'"
    and "Q s" and "for_u8 bound body i s = Inr s'"
  shows "Q s'"
proof -
  have "\<forall>i s s'. Q s \<longrightarrow> body i s = Inr s' \<longrightarrow> Q s'"
    using assms(1) by blast
  then show ?thesis
    using assms(2,3) by (rule for_u8_invariant_aux)
qed

lemma Draw_Pixel_last_error: "Draw_Pixel d x y c = Inr d' \<Longrightarrow> last_error d' = last_error d"
  by (auto simp add: Draw_Pixel_def Let_def split: if_splits)

lemma Draw_Pixels_last_error: "Draw_Pixels d ps = Inr d' \<Longrightarrow> last_error d' = last_error d"
proof -
  assume "Draw_Pixels d ps = Inr d'"
  then have "d'\<lparr>buffer := []\<rparr> = d\<lparr>buffer := []\<rparr>"
    by (rule Draw_Pixels_other_members)
  then have "last_error (d'\<lparr>buffer := []\<rparr>) = last_error (d\<lparr>buffer := []\<rparr>)"
    by (rule arg_cong)
  then show ?thesis
    by simp
qed

lemma Draw_Line_H_last_error:
  "Draw_Line_H d x y len c = Inr d' \<Longrightarrow> last_error d' = last_error d"
  by (simp add: Draw_Line_H_as_pixels Draw_Pixels_last_error)

lemma Draw_Line_V_last_error:
  "Draw_Line_V d x y len c = Inr d' \<Longrightarrow> last_error d' = last_error d"
  by (simp add: Draw_Line_V_as_pixels Draw_Pixels_last_error)

lemma Draw_Square_last_error:
  "Draw_Square d x y x2 y2 c = Inr d' \<Longrightarrow> last_error d' = last_error d"
  by (auto simp add: Draw_Square_def split: sum.splits
      dest!: Draw_Line_H_last_error Draw_Line_V_last_error)

lemma Draw_Waveform_last_error:
  assumes "Draw_Waveform d x y samples n c = Inr d'"
  shows "last_error d' = last_error d"
proof (rule for_u8_invariant [where Q = "\<lambda>s. last_error s = last_error d"])
  show "for_u8 (\<lambda>d. n)
       (\<lambda>i d. if unat i < length samples then Draw_Pixel d (i + x) (y - samples ! unat i) c
              else Inl Source_Too_Short) 0 d = Inr d'"
    using assms by (simp add: Draw_Waveform_def)
qed (auto split: if_splits dest: Draw_Pixel_last_error)

lemma Draw_Image_last_error: "Draw_Image d img = Inr d' \<Longrightarrow> last_error d' = last_error d"
  by (auto simp add: Draw_Image_def split: if_splits)

lemma Write_Char_bit_last_error:
  "Write_Char_bit color row y x s = Inr s' \<Longrightarrow> last_error s' = last_error s"
  by (cases "row_bit row x")
    (auto simp add: Write_Char_bit_def split: if_splits dest: Draw_Pixel_last_error)

lemma Write_Char_row_last_error:
  assumes "Write_Char_row chr color y s = Inr s'"
  shows "last_error s' = last_error s"
proof (cases "font_row (font s) chr y")
  case (Inl e)
  with assms show ?thesis
    by (simp add: Write_Char_row_def)
next
  case (Inr row)
  with assms have "for_u8 (\<lambda>d. FontWidth (font d)) (Write_Char_bit color row y) 0 s = Inr s'"
    by (simp add: Write_Char_row_def)
  then show ?thesis
    by (rule for_u8_invariant [where Q = "\<lambda>t. last_error t = last_error s" and s = s
          and body = "Write_Char_bit color row y", rotated 2])
      (simp_all add: Write_Char_bit_last_error)
qed

lemma Write_Char_last_error:
  assumes "Write_Char d chr color = Inr d'"
  shows "last_error d' = last_error d"
proof -
  from assms obtain d1 where
    1: "for_u8 (\<lambda>d. FontHeight (font d)) (Write_Char_row chr color) 0 d = Inr d1"
    and 2: "d' = d1\<lparr>Coordinates := (Coordinates d1)\<lparr>X := X (Coordinates d1) + FontWidth (font d1)\<rparr>\<rparr>"
    unfolding Write_Char_def
    by (cases "for_u8 (\<lambda>d. FontHeight (font d)) (Write_Char_row chr color) 0 d") auto
  from 1 have "last_error d1 = last_error d"
    by (rule for_u8_invariant [where Q = "\<lambda>t. last_error t = last_error d" and s = d
          and body = "Write_Char_row chr color", rotated 2])
      (simp_all add: Write_Char_row_last_error)
  with 2 show ?thesis
    by simp
qed

lemma Write_String_last_error:
  "Write_String d str = Inr d' \<Longrightarrow> last_error d' = last_error d"
  by (induction d str rule: Write_String.induct)
    (auto split: if_splits sum.splits dest: Write_Char_last_error)

lemma Write_String_Inverted_last_error:
  "Write_String_Inverted d str = Inr d' \<Longrightarrow> last_error d' = last_error d"
  by (induction d str rule: Write_String_Inverted.induct)
    (auto split: if_splits sum.splits dest: Write_Char_last_error)

lemma perform_keeps_error:
  assumes "call \<noteq> Call_Clean_Errors" and "perform hal d call = Inr d'" and "last_error d \<noteq> 0"
  shows "last_error d' \<noteq> 0"
proof (cases call)
  case Call_Initialize
  with assms show ?thesis by (auto simp add: Initialize_keeps_error)
next
  case Call_Update_Screen
  with assms show ?thesis by (auto simp add: Update_Screen_keeps_error)
next
  case Call_Clean
  with assms show ?thesis by (auto simp add: Clean_def Fill_fields)
next
  case (Call_Fill color)
  with assms show ?thesis by (auto simp add: Fill_fields)
next
  case (Call_Set_Cursor x y)
  with assms show ?thesis by (auto simp add: Set_Cursor_def Let_def)
next
  case (Call_Write_String str)
  with assms show ?thesis by (auto dest: Write_String_last_error)
next
  case (Call_Write_String_Inverted str)
  with assms show ?thesis by (auto dest: Write_String_Inverted_last_error)
next
  case (Call_Draw_Pixel x y c)
  with assms show ?thesis by (auto dest: Draw_Pixel_last_error)
next
  case (Call_Draw_Image img)
  with assms show ?thesis by (auto dest: Draw_Image_last_error)
next
  case (Call_Draw_Line_H x y w c)
  with assms show ?thesis by (auto dest: Draw_Line_H_last_error)
next
  case (Call_Draw_Line_V x y h c)
  with assms show ?thesis by (auto dest: Draw_Line_V_last_error)
next
  case (Call_Draw_Square x y x2 y2 c)
  with assms show ?thesis by (auto dest: Draw_Square_last_error)
next
  case (Call_Draw_Waveform x y samples n c)
  with assms show ?thesis by (auto dest: Draw_Waveform_last_error)
next
  case Call_Display_Off
  with assms show ?thesis by (auto simp add: Display_Off_def Write_Command_keeps_error)
next
  case Call_Display_On
  with assms show ?thesis by (auto simp add: Display_On_def Write_Command_keeps_error)
next
  case (Call_Set_Brightness brightness)
  with assms show ?thesis
    by (auto simp add: Set_Brightness_def Let_def Write_Command_keeps_error)
next
  case (Call_Invert_Colors inverted)
  with assms show ?thesis
    by (cases inverted) (auto simp add: Invert_Colors_def Write_Command_keeps_error)
next
  case (Call_Flip_Screen flipped)
  with assms show ?thesis
    by (cases flipped) (auto simp add: Flip_Screen_def Write_Command_keeps_error)
next
  case (Call_Mirror_Screen mirrored)
  with assms show ?thesis
    by (cases mirrored) (auto simp add: Mirror_Screen_def Write_Command_keeps_error)
next
  case (Call_Set_Font_size f)
  with assms show ?thesis by (auto simp add: Set_Font_size_def)
next
  case Call_IsInitialized
  with assms show ?thesis by auto
next
  case Call_Get_Last_Error
  with assms show ?thesis by auto
next
  case Call_Clean_Errors
  with assms show ?thesis by simp
qed

text \<open>Claim C6. A command or data transport call whose status is nonzero stores that
  status in \<open>last_error\<close>; one whose status is 0 leaves \<open>last_error\<close> as it was;
  \<open>Get_Last_Error\<close> returns the current value; \<open>Clean_Errors\<close> sets it to 0; and no other
  member function of the public interface, whatever its arguments and whatever the
  transport answers, takes a nonzero \<open>last_error\<close> back to 0.\<close>

theorem last_error_is_sticky:
  "last_error (Write_Command hal d c) =
     (if hal (conn d) (command_call d c) \<noteq> 0 then hal (conn d) (command_call d c)
      else last_error d) \<and>
   last_error (Write_Data hal d arr) =
     (if hal (conn d) (data_call d arr) \<noteq> 0 then hal (conn d) (data_call d arr)
      else last_error d) \<and>
   Get_Last_Error d = last_error d \<and>
   last_error (Clean_Errors d) = 0 \<and>
   (\<forall>call d'. call \<noteq> Call_Clean_Errors \<and> perform hal d call = Inr d' \<and> last_error d \<noteq> 0 \<longrightarrow>
      last_error d' \<noteq> 0)"
proof -
  have "\<forall>call d'. call \<noteq> Call_Clean_Errors \<and> perform hal d call = Inr d' \<and> last_error d \<noteq> 0 \<longrightarrow>
      last_error d' \<noteq> 0"
    using perform_keeps_error [of _ hal d] by blast
  then show ?thesis
    by (simp add: Write_Command_last_error Write_Data_last_error Get_Last_Error_def
        Clean_Errors_def)
qed

theorem last_error_is_sticky_witness:
  "last_error (Write_Command (\<lambda>tr call. 3) oled64 0xAE) = 3 \<and>
   last_error (Write_Command (\<lambda>tr call. 0) (Write_Command (\<lambda>tr call. 3) oled64 0xAE) 0xAF) = 3 \<and>
   Call_Update_Screen \<noteq> Call_Clean_Errors \<and>
   perform (\<lambda>tr call. 0) (Write_Command (\<lambda>tr call. 3) oled64 0xAE) Call_Update_Screen =
     Inr (Update_Screen (\<lambda>tr call. 0) (Write_Command (\<lambda>tr call. 3) oled64 0xAE)) \<and>
   last_error (Update_Screen (\<lambda>tr call. 0) (Write_Command (\<lambda>tr call. 3) oled64 0xAE)) \<noteq> 0 \<and>
   last_error (Clean_Errors (Write_Command (\<lambda>tr call. 3) oled64 0xAE)) = 0"
proof -
  let ?d = "Write_Command (\<lambda>tr call. 3) oled64 0xAE"
  have a: "last_error ?d = 3"
    using last_error_is_sticky [of "\<lambda>tr call. 3" oled64 "0xAE"] by simp
  have b: "last_error (Write_Command (\<lambda>tr call. 0) ?d 0xAF) = 3"
    using last_error_is_sticky [of "\<lambda>tr call. 0" ?d "0xAF"] a by simp
  have c: "last_error (Update_Screen (\<lambda>tr call. 0) ?d) \<noteq> 0"
    using last_error_is_sticky [of "\<lambda>tr call. 0" ?d, THEN conjunct2, THEN conjunct2,
        THEN conjunct2, THEN conjunct2, rule_format, of Call_Update_Screen
        "Update_Screen (\<lambda>tr call. 0) ?d"] a
    by simp
  have e: "last_error (Clean_Errors ?d) = 0"
    using last_error_is_sticky [of "\<lambda>tr call. 0" ?d] by simp
  from a b c e show ?thesis
    by simp
qed

section \<open>Glyphs\<close>

lemma row_bit_eq:
  assumes "unat x < 16"
  shows "row_bit row x = Inr (bit row (15 - unat x))"
proof -
  have "unat row < 2 ^ 16"
    using unsigned_less [of row, where ?'a = nat] by simp
  moreover have "(2::nat) ^ unat x \<le> 2 ^ 15"
    using assms by (intro power_increasing) simp_all
  ultimately have "unat row * 2 ^ unat x < 2 ^ 16 * 2 ^ 15"
    by (intro mult_less_le_imp_less) simp_all
  then have fits: "unat row * 2 ^ unat x < 2 ^ 32"
    by simp
  have "(push_bit (unat x) (ucast row :: 32 word) AND 0x8000 \<noteq> 0) =
      bit (push_bit (unat x) (ucast row :: 32 word)) 15"
    using and_exp_eq_0_iff_not_bit [of "push_bit (unat x) (ucast row :: 32 word)" 15]
    by simp
  also have "\<dots> = bit row (15 - unat x)"
    using assms by (auto simp add: bit_simps)
  finally show ?thesis
    using assms fits by (simp add: row_bit_def)
qed

lemma font_row_eq:
  assumes "32 \<le> (of_char chr :: nat)"
    and "(of_char chr - 32 + 1) * unat (FontHeight f) \<le> length (data f)"
    and "y < FontHeight f"
  shows "font_row f chr y = Inr (glyph_row f chr (unat y))"
proof -
  define n where "n = (of_char chr - 32) * unat (FontHeight f) + unat y"
  have y: "unat y < unat (FontHeight f)"
    using assms(3) by (simp add: word_less_nat_alt)
  have k: "(int (of_char chr) - 32) * int (unat (FontHeight f)) + int (unat y) = int n"
    using assms(1) by (simp add: n_def of_nat_diff)
  have "n < (of_char chr - 32 + 1) * unat (FontHeight f)"
    using y by (simp add: n_def)
  with assms(2) have "n < length (data f)"
    by linarith
  then have "font_row f chr y = Inr (data f ! n)"
    unfolding font_row_def Let_def k by simp
  then show ?thesis
    by (simp add: glyph_row_def n_def)
qed

lemma unat_of_nat_below:
  "k < unat (n::u8) \<Longrightarrow> unat (of_nat k :: u8) = k"
  by (rule le_unat_uoi [of k n]) simp

lemma case_sum_same: "(case r of Inl e \<Rightarrow> Inl e | Inr d \<Rightarrow> Inr d) = r"
  by (cases r) simp_all

lemma Draw_Pixels_members:
  assumes "Draw_Pixels s ps = Inr s'"
  shows "font s' = font s" and "Coordinates s' = Coordinates s" and "height s' = height s"
proof -
  from assms have e: "s'\<lparr>buffer := []\<rparr> = s\<lparr>buffer := []\<rparr>"
    by (rule Draw_Pixels_other_members)
  from arg_cong [OF e, of font] show "font s' = font s" by simp
  from arg_cong [OF e, of Coordinates] show "Coordinates s' = Coordinates s" by simp
  from arg_cong [OF e, of height] show "height s' = height s" by simp
qed

lemma Draw_Pixels_single: "Draw_Pixels s [(x, y, c)] = Draw_Pixel s x y c"
  by (cases "Draw_Pixel s x y c") simp_all

lemma Write_Char_bit_as_pixel:
  assumes "unat x < 16"
  shows "Write_Char_bit color row y x s =
    Draw_Pixels s [(X (Coordinates s) + x, Y (Coordinates s) + y,
      glyph_color color (bit row (15 - unat x)))]"
proof -
  define b where "b = bit row (15 - unat x)"
  have "row_bit row x = Inr b"
    using assms by (simp add: row_bit_eq b_def)
  then have "Write_Char_bit color row y x s =
      Draw_Pixel s (X (Coordinates s) + x) (Y (Coordinates s) + y) (glyph_color color b)"
    by (cases color; cases b) (simp_all add: Write_Char_bit_def glyph_color_def)
  then show ?thesis
    by (simp only: Draw_Pixels_single b_def)
qed

lemma Write_Char_row_as_pixels:
  assumes W: "unat (FontWidth (font d)) \<le> 16"
    and c: "32 \<le> (of_char chr :: nat)"
    and t: "(of_char chr - 32 + 1) * unat (FontHeight (font d)) \<le> length (data (font d))"
    and y: "y < FontHeight (font d)"
    and P: "font s = font d \<and> Coordinates s = Coordinates d"
  shows "Write_Char_row chr color y s =
    Draw_Pixels s (map (\<lambda>x'. (X (Coordinates d) + of_nat x', Y (Coordinates d) + y,
        glyph_color color (glyph_bit (font d) chr x' (unat y))))
      [0..<unat (FontWidth (font d))])"
proof -
  let ?row = "glyph_row (font d) chr (unat y)"
  let ?pix = "\<lambda>i. [(X (Coordinates d) + i, Y (Coordinates d) + y,
      glyph_color color (bit ?row (15 - unat i)))]"
  have row: "font_row (font s) chr y = Inr ?row"
    using c t y P font_row_eq [of chr "font d" y] by simp
  have "for_u8 (\<lambda>d. FontWidth (font d)) (Write_Char_bit color ?row y) 0 s =
      Draw_Pixels s (concat (map (\<lambda>k. ?pix (of_nat k)) [unat (0::u8)..<unat (FontWidth (font d))]))"
  proof (rule for_u8_Draw_Pixels [where P = "\<lambda>s. font s = font d \<and> Coordinates s = Coordinates d"])
    fix i :: u8 and s :: SSD1306
    assume "font s = font d \<and> Coordinates s = Coordinates d" and "i < FontWidth (font d)"
    then show "Write_Char_bit color ?row y i s = Draw_Pixels s (?pix i)"
      using W Write_Char_bit_as_pixel [of i color ?row y s]
      by (simp add: word_less_nat_alt)
  qed (use P in \<open>simp_all add: Draw_Pixels_members\<close>)
  also have "concat (map (\<lambda>k. ?pix (of_nat k)) [unat (0::u8)..<unat (FontWidth (font d))]) =
      map (\<lambda>x'. (X (Coordinates d) + of_nat x', Y (Coordinates d) + y,
        glyph_color color (glyph_bit (font d) chr x' (unat y)))) [0..<unat (FontWidth (font d))]"
    by (simp add: concat_map_singleton glyph_bit_def unat_of_nat_below cong: map_cong)
  finally show ?thesis
    using row by (simp add: Write_Char_row_def)
qed

lemma Write_Char_as_pixels:
  assumes W: "unat (FontWidth (font d)) \<le> 16"
    and c: "32 \<le> (of_char chr :: nat)"
    and t: "(of_char chr - 32 + 1) * unat (FontHeight (font d)) \<le> length (data (font d))"
  shows "Write_Char d chr color =
    (case Draw_Pixels d (glyph_pixels d chr color) of Inl e \<Rightarrow> Inl e
     | Inr d' \<Rightarrow> Inr (d'\<lparr>Coordinates := (Coordinates d')\<lparr>X := X (Coordinates d') + FontWidth (font d')\<rparr>\<rparr>))"
proof -
  let ?pix = "\<lambda>y. map (\<lambda>x'. (X (Coordinates d) + of_nat x', Y (Coordinates d) + y,
        glyph_color color (glyph_bit (font d) chr x' (unat y))))
      [0..<unat (FontWidth (font d))]"
  have "for_u8 (\<lambda>d. FontHeight (font d)) (Write_Char_row chr color) 0 d =
      Draw_Pixels d (concat (map (\<lambda>k. ?pix (of_nat k)) [unat (0::u8)..<unat (FontHeight (font d))]))"
  proof (rule for_u8_Draw_Pixels [where P = "\<lambda>s. font s = font d \<and> Coordinates s = Coordinates d"])
    fix y :: u8 and s :: SSD1306
    assume "font s = font d \<and> Coordinates s = Coordinates d" and "y < FontHeight (font d)"
    then show "Write_Char_row chr color y s = Draw_Pixels s (?pix y)"
      using W c t by (intro Write_Char_row_as_pixels)
  qed (simp_all add: Draw_Pixels_members)
  also have "map (\<lambda>k. ?pix (of_nat k)) [unat (0::u8)..<unat (FontHeight (font d))] =
      map (\<lambda>y'. map (\<lambda>x'. (X (Coordinates d) + of_nat x', Y (Coordinates d) + of_nat y',
                  glyph_color color (glyph_bit (font d) chr x' y')))
         [0..<unat (FontWidth (font d))]) [0..<unat (FontHeight (font d))]"
    by (rule map_cong) (simp_all add: unat_of_nat_below [where n = "FontHeight (font d)"])
  finally have "for_u8 (\<lambda>d. FontHeight (font d)) (Write_Char_row chr color) 0 d =
      Draw_Pixels d (glyph_pixels d chr color)"
    by (simp only: glyph_pixels_def)
  then show ?thesis
    by (simp add: Write_Char_def)
qed

lemma set_glyph_pixels:
  "p \<in> set (glyph_pixels d chr color) \<longleftrightarrow>
     (\<exists>x' y'. x' < unat (FontWidth (font d)) \<and> y' < unat (FontHeight (font d)) \<and>
        p = (X (Coordinates d) + of_nat x', Y (Coordinates d) + of_nat y',
             glyph_color color (glyph_bit (font d) chr x' y')))"
proof -
  have "set (glyph_pixels d chr color) =
      (\<Union>y' \<in> {0..<unat (FontHeight (font d))}.
         (\<lambda>x'. (X (Coordinates d) + of_nat x', Y (Coordinates d) + of_nat y',
             glyph_color color (glyph_bit (font d) chr x' y'))) ` {0..<unat (FontWidth (font d))})"
    by (simp add: glyph_pixels_def)
  then show ?thesis
    by (simp only: UN_iff image_iff Bex_def atLeastLessThan_iff) blast
qed

lemma of_nat_u8_inject:
  assumes "a < unat (n::u8)" "b < unat n" "(of_nat a :: u8) = of_nat b"
  shows "a = b"
proof -
  have "a = unat (of_nat a :: u8)"
    using assms(1) by (rule unat_of_nat_below [symmetric])
  also have "\<dots> = unat (of_nat b :: u8)"
    by (rule arg_cong [OF assms(3)])
  also have "\<dots> = b"
    using assms(2) by (rule unat_of_nat_below)
  finally show ?thesis .
qed

lemma glyph_pixels_consistent:
  assumes "x' < unat (FontWidth (font d))" "y' < unat (FontHeight (font d))"
    and "(X (Coordinates d) + of_nat x', Y (Coordinates d) + of_nat y', c') \<in> set (glyph_pixels d chr color)"
  shows "c' = glyph_color color (glyph_bit (font d) chr x' y')"
proof -
  from assms(3) obtain x2 y2 where 2: "x2 < unat (FontWidth (font d))" "y2 < unat (FontHeight (font d))"
    and e: "X (Coordinates d) + of_nat x' = X (Coordinates d) + of_nat x2"
      "Y (Coordinates d) + of_nat y' = Y (Coordinates d) + of_nat y2"
      "c' = glyph_color color (glyph_bit (font d) chr x2 y2)"
    unfolding set_glyph_pixels by blast
  from e(1) have "(of_nat x' :: u8) = of_nat x2"
    by simp
  with assms(1) 2(1) have "x' = x2"
    by (rule of_nat_u8_inject)
  moreover from e(2) have "(of_nat y' :: u8) = of_nat y2"
    by simp
  with assms(2) 2(2) have "y' = y2"
    by (rule of_nat_u8_inject)
  ultimately show ?thesis
    using e(3) by simp
qed

lemma Write_Char_effect:
  assumes wf: "length (buffer d) = buffer_size" and h: "height d \<le> 64"
    and W: "unat (FontWidth (font d)) \<le> 16"
    and c: "32 \<le> (of_char chr :: nat)"
    and t: "(of_char chr - 32 + 1) * unat (FontHeight (font d)) \<le> length (data (font d))"
  shows "\<exists>d'. Write_Char d chr color = Inr d' \<and>
     d'\<lparr>buffer := buffer d, Coordinates := Coordinates d\<rparr> = d \<and>
     length (buffer d') = length (buffer d) \<and>
     X (Coordinates d') = X (Coordinates d) + FontWidth (font d) \<and>
     Y (Coordinates d') = Y (Coordinates d) \<and>
     (\<forall>x' y'. x' < unat (FontWidth (font d)) \<and> y' < unat (FontHeight (font d)) \<and>
        X (Coordinates d) + of_nat x' < width \<and> Y (Coordinates d) + of_nat y' < height d \<longrightarrow>
        pixel_bit d' (X (Coordinates d) + of_nat x') (Y (Coordinates d) + of_nat y') =
          (glyph_color color (glyph_bit (font d) chr x' y') = WHITE)) \<and>
     (\<forall>j m. bit (buffer d' ! j) m \<noteq> bit (buffer d ! j) m \<longrightarrow>
        (\<exists>x' y'. x' < unat (FontWidth (font d)) \<and> y' < unat (FontHeight (font d)) \<and>
           X (Coordinates d) + of_nat x' < width \<and> Y (Coordinates d) + of_nat y' < height d \<and>
           j = pixel_index (X (Coordinates d) + of_nat x') (Y (Coordinates d) + of_nat y') \<and>
           m = unat (Y (Coordinates d) + of_nat y') mod 8))"
proof -
  let ?ps = "glyph_pixels d chr color"
  from Draw_Pixels_effect [OF wf h, of ?ps] obtain d1 where
    d1: "Draw_Pixels d ?ps = Inr d1" "d1\<lparr>buffer := buffer d\<rparr> = d"
      "length (buffer d1) = length (buffer d)"
    and only: "\<And>j m. bit (buffer d1 ! j) m \<noteq> bit (buffer d ! j) m \<Longrightarrow>
         \<exists>px py pc. (px, py, pc) \<in> set ?ps \<and> px < width \<and> py < height d \<and>
            j = pixel_index px py \<and> m = unat py mod 8"
    and written: "\<And>px py pc. (px, py, pc) \<in> set ?ps \<Longrightarrow> px < width \<Longrightarrow> py < height d \<Longrightarrow>
         (\<forall>c'. (px, py, c') \<in> set ?ps \<longrightarrow> c' = pc) \<Longrightarrow> pixel_bit d1 px py = (pc = WHITE)"
    by blast
  let ?d' = "d1\<lparr>Coordinates := (Coordinates d1)\<lparr>X := X (Coordinates d1) + FontWidth (font d1)\<rparr>\<rparr>"
  have m: "font d1 = font d" "Coordinates d1 = Coordinates d"
    using Draw_Pixels_members [OF d1(1)] by simp_all
  have run: "Write_Char d chr color = Inr ?d'"
    using d1(1) by (simp add: Write_Char_as_pixels [OF W c t])
  have frame: "?d'\<lparr>buffer := buffer d, Coordinates := Coordinates d\<rparr> = d"
  proof -
    have "?d'\<lparr>buffer := buffer d, Coordinates := Coordinates d\<rparr> =
        (d1\<lparr>buffer := buffer d\<rparr>)\<lparr>Coordinates := Coordinates d\<rparr>"
      by simp
    also have "\<dots> = d"
      by (simp add: d1(2))
    finally show ?thesis .
  qed
  have px: "\<forall>x' y'. x' < unat (FontWidth (font d)) \<and> y' < unat (FontHeight (font d)) \<and>
        X (Coordinates d) + of_nat x' < width \<and> Y (Coordinates d) + of_nat y' < height d \<longrightarrow>
        pixel_bit d1 (X (Coordinates d) + of_nat x') (Y (Coordinates d) + of_nat y') =
          (glyph_color color (glyph_bit (font d) chr x' y') = WHITE)"
  proof (intro allI impI)
    fix x' y'
    assume a: "x' < unat (FontWidth (font d)) \<and> y' < unat (FontHeight (font d)) \<and>
        X (Coordinates d) + of_nat x' < width \<and> Y (Coordinates d) + of_nat y' < height d"
    show "pixel_bit d1 (X (Coordinates d) + of_nat x') (Y (Coordinates d) + of_nat y') =
          (glyph_color color (glyph_bit (font d) chr x' y') = WHITE)"
    proof (rule written)
      show "(X (Coordinates d) + of_nat x', Y (Coordinates d) + of_nat y',
          glyph_color color (glyph_bit (font d) chr x' y')) \<in> set ?ps"
        unfolding set_glyph_pixels using a by blast
      show "\<forall>c'. (X (Coordinates d) + of_nat x', Y (Coordinates d) + of_nat y', c') \<in> set ?ps \<longrightarrow>
          c' = glyph_color color (glyph_bit (font d) chr x' y')"
        using a glyph_pixels_consistent [of x' d y' _ chr color] by blast
    qed (use a in simp_all)
  qed
  have tc: "\<forall>j m. bit (buffer d1 ! j) m \<noteq> bit (buffer d ! j) m \<longrightarrow>
        (\<exists>x' y'. x' < unat (FontWidth (font d)) \<and> y' < unat (FontHeight (font d)) \<and>
           X (Coordinates d) + of_nat x' < width \<and> Y (Coordinates d) + of_nat y' < height d \<and>
           j = pixel_index (X (Coordinates d) + of_nat x') (Y (Coordinates d) + of_nat y') \<and>
           m = unat (Y (Coordinates d) + of_nat y') mod 8)"
  proof (intro allI impI)
    fix j m
    assume "bit (buffer d1 ! j) m \<noteq> bit (buffer d ! j) m"
    from only [OF this] obtain px py pc where
      p: "(px, py, pc) \<in> set ?ps" "px < width" "py < height d" "j = pixel_index px py"
        "m = unat py mod 8"
      by blast
    from p(1) obtain x' y' where "x' < unat (FontWidth (font d))" "y' < unat (FontHeight (font d))"
      "px = X (Coordinates d) + of_nat x'" "py = Y (Coordinates d) + of_nat y'"
      unfolding set_glyph_pixels by blast
    with p(2-5) show "\<exists>x' y'. x' < unat (FontWidth (font d)) \<and> y' < unat (FontHeight (font d)) \<and>
           X (Coordinates d) + of_nat x' < width \<and> Y (Coordinates d) + of_nat y' < height d \<and>
           j = pixel_index (X (Coordinates d) + of_nat x') (Y (Coordinates d) + of_nat y') \<and>
           m = unat (Y (Coordinates d) + of_nat y') mod 8"
      by blast
  qed
  have "pixel_bit ?d' = pixel_bit d1"
    by (simp add: fun_eq_iff pixel_bit_def)
  with run frame px tc d1(3) m show ?thesis
    by (intro exI [of _ ?d']) simp
qed

lemma Write_String_repeated:
  assumes "chr \<noteq> CHR 0x00" and "32 \<le> (of_char chr :: nat)"
  shows "length (buffer d) = buffer_size \<Longrightarrow> height d \<le> 64 \<Longrightarrow>
    unat (FontWidth (font d)) \<le> 16 \<Longrightarrow>
    (of_char chr - 32 + 1) * unat (FontHeight (font d)) \<le> length (data (font d)) \<Longrightarrow>
    \<exists>d'. Write_String d (replicate n chr) = Inr d' \<and>
      d'\<lparr>buffer := buffer d, Coordinates := Coordinates d\<rparr> = d \<and>
      length (buffer d') = length (buffer d) \<and>
      X (Coordinates d') = X (Coordinates d) + of_nat n * FontWidth (font d) \<and>
      Y (Coordinates d') = Y (Coordinates d)"
proof (induction n arbitrary: d)
  case 0
  then show ?case
    by simp
next
  case (Suc n)
  from Write_Char_effect [OF Suc.prems(1,2,3) assms(2) Suc.prems(4), of WHITE] obtain d1 where
    1: "Write_Char d chr WHITE = Inr d1"
    and f: "d1\<lparr>buffer := buffer d, Coordinates := Coordinates d\<rparr> = d"
    and l: "length (buffer d1) = length (buffer d)"
    and x: "X (Coordinates d1) = X (Coordinates d) + FontWidth (font d)"
    and y: "Y (Coordinates d1) = Y (Coordinates d)"
    by blast
  have m: "font d1 = font d" "height d1 = height d"
    using arg_cong [OF f, of font] arg_cong [OF f, of height] by simp_all
  have "\<exists>d'. Write_String d1 (replicate n chr) = Inr d' \<and>
      d'\<lparr>buffer := buffer d1, Coordinates := Coordinates d1\<rparr> = d1 \<and>
      length (buffer d') = length (buffer d1) \<and>
      X (Coordinates d') = X (Coordinates d1) + of_nat n * FontWidth (font d1) \<and>
      Y (Coordinates d') = Y (Coordinates d1)"
    using Suc.prems by (intro Suc.IH) (simp_all add: m l)
  then obtain d2 where 2: "Write_String d1 (replicate n chr) = Inr d2"
    and f2: "d2\<lparr>buffer := buffer d1, Coordinates := Coordinates d1\<rparr> = d1"
    and l2: "length (buffer d2) = length (buffer d1)"
    and x2: "X (Coordinates d2) = X (Coordinates d1) + of_nat n * FontWidth (font d1)"
    and y2: "Y (Coordinates d2) = Y (Coordinates d1)"
    by blast
  have "d2\<lparr>buffer := buffer d, Coordinates := Coordinates d\<rparr> =
      (d2\<lparr>buffer := buffer d1, Coordinates := Coordinates d1\<rparr>)\<lparr>buffer := buffer d, Coordinates := Coordinates d\<rparr>"
    by simp
  also have "\<dots> = d"
    by (simp only: f2 f)
  finally have f3: "d2\<lparr>buffer := buffer d, Coordinates := Coordinates d\<rparr> = d" .
  have "Write_String d (replicate (Suc n) chr) = Inr d2"
    using 1 2 assms(1) by simp
  moreover have "X (Coordinates d2) = X (Coordinates d) + of_nat (Suc n) * FontWidth (font d)"
    by (simp add: x2 x m algebra_simps)
  ultimately show ?case
    using f3 l l2 y y2 by simp
qed

lemma oled64_glyph_8:
  "of_char (CHR ''8'') = (56::nat)"
  "glyph_row font_7x10_upto_8 (CHR ''8'') 0 = 0x3800"
  "glyph_row font_7x10_upto_8 (CHR ''8'') 1 = 0x4400"
  by (simp_all add: glyph_row_def font_7x10_upto_8_def nth_append)

lemma oled64_glyph_hyps:
  "length (buffer oled64) = buffer_size" "height oled64 \<le> 64"
  "unat (FontWidth (font oled64)) \<le> 16" "32 \<le> (of_char (CHR ''8'') :: nat)"
  "(of_char (CHR ''8'') - 32 + 1) * unat (FontHeight (font oled64)) \<le> length (data (font oled64))"
  by (simp_all add: oled64_fields font_7x10_upto_8_def)

text \<open>Claim C5, amended. Take a character whose glyph rows lie inside the font table
  (code at least 32, as the font's contract asks), a font at most 16 pixels wide (a row
  is a 16-bit word) and a
  display of at most 64 rows. Then \<open>Write_Char chr color\<close> is exactly the sequence of
  \<open>Draw_Pixel\<close> calls, row by row and left to right, at
  \<open>((cursor.X + x') mod 256, (cursor.Y + y') mod 256)\<close> for \<open>y' < FontHeight\<close> and
  \<open>x' < FontWidth\<close>, followed by the cursor update. The colour of a call is, in normal mode
  (WHITE), WHITE if bit \<open>15 - x'\<close> of the row word is set and BLACK otherwise, and in inverted
  mode (BLACK) the opposite, so that the background is painted too. The call returns
  without a fault; every such pixel inside the screen reads back with that colour; no other
  bit of the frame buffer and no other member changes; \<open>cursor.X\<close> becomes
  \<open>(cursor.X + FontWidth) mod 256\<close> and \<open>cursor.Y\<close> stays.\<close>

theorem Write_Char_draws_glyph:
  assumes "length (buffer d) = buffer_size" and "height d \<le> 64"
    and "unat (FontWidth (font d)) \<le> 16"
    and "32 \<le> (of_char chr :: nat)"
    and "(of_char chr - 32 + 1) * unat (FontHeight (font d)) \<le> length (data (font d))"
  shows "Write_Char d chr color =
      (case Draw_Pixels d (glyph_pixels d chr color) of Inl e \<Rightarrow> Inl e
       | Inr d' \<Rightarrow> Inr (d'\<lparr>Coordinates := (Coordinates d')\<lparr>X := X (Coordinates d') + FontWidth (font d')\<rparr>\<rparr>)) \<and>
    (\<exists>d'. Write_Char d chr color = Inr d' \<and>
       d'\<lparr>buffer := buffer d, Coordinates := Coordinates d\<rparr> = d \<and>
       length (buffer d') = length (buffer d) \<and>
       X (Coordinates d') = X (Coordinates d) + FontWidth (font d) \<and>
       Y (Coordinates d') = Y (Coordinates d) \<and>
       (\<forall>x' y'. x' < unat (FontWidth (font d)) \<and> y' < unat (FontHeight (font d)) \<and>
          X (Coordinates d) + of_nat x' < width \<and> Y (Coordinates d) + of_nat y' < height d \<longrightarrow>
          pixel_bit d' (X (Coordinates d) + of_nat x') (Y (Coordinates d) + of_nat y') =
            (glyph_color color (glyph_bit (font d) chr x' y') = WHITE)) \<and>
       (\<forall>j m. bit (buffer d' ! j) m \<noteq> bit (buffer d ! j) m \<longrightarrow>
          (\<exists>x' y'. x' < unat (FontWidth (font d)) \<and> y' < unat (FontHeight (font d)) \<and>
             X (Coordinates d) + of_nat x' < width \<and> Y (Coordinates d) + of_nat y' < height d \<and>
             j = pixel_index (X (Coordinates d) + of_nat x') (Y (Coordinates d) + of_nat y') \<and>
             m = unat (Y (Coordinates d) + of_nat y') mod 8)))"
  using Write_Char_as_pixels [OF assms(3,4,5), of color] Write_Char_effect [OF assms, of color]
  by (rule conjI)

theorem Write_Char_draws_glyph_witness:
  "length (buffer oled64) = buffer_size \<and> height oled64 \<le> 64 \<and>
   unat (FontWidth (font oled64)) \<le> 16 \<and> 32 \<le> (of_char (CHR ''8'') :: nat) \<and>
   (of_char (CHR ''8'') - 32 + 1) * unat (FontHeight (font oled64)) \<le> length (data (font oled64)) \<and>
   cursor_after (Write_Char oled64 (CHR ''8'') WHITE) = Some (7, 0) \<and>
   pixel_after (Write_Char oled64 (CHR ''8'') WHITE) 2 0 = Some True \<and>
   pixel_after (Write_Char oled64 (CHR ''8'') WHITE) 0 0 = Some False \<and>
   pixel_after (Write_Char oled64 (CHR ''8'') BLACK) 2 0 = Some False \<and>
   pixel_after (Write_Char oled64 (CHR ''8'') BLACK) 0 0 = Some True"
proof -
  note h = oled64_glyph_hyps
  have g: "glyph_bit (font oled64) (CHR ''8'') 2 0" "\<not> glyph_bit (font oled64) (CHR ''8'') 0 0"
    by (simp_all add: glyph_bit_def oled64_fields oled64_glyph_8)
  have in_range: "(2::nat) < unat (FontWidth (font oled64)) \<and> (0::nat) < unat (FontHeight (font oled64)) \<and>
      X (Coordinates oled64) + of_nat 2 < width \<and> Y (Coordinates oled64) + of_nat 0 < height oled64"
    "(0::nat) < unat (FontWidth (font oled64)) \<and> (0::nat) < unat (FontHeight (font oled64)) \<and>
      X (Coordinates oled64) + of_nat 0 < width \<and> Y (Coordinates oled64) + of_nat 0 < height oled64"
    by (simp_all add: oled64_fields font_7x10_upto_8_def width_def)
  from Write_Char_draws_glyph [OF h, of WHITE, THEN conjunct2] obtain dw where
    w: "Write_Char oled64 (CHR ''8'') WHITE = Inr dw"
      "X (Coordinates dw) = X (Coordinates oled64) + FontWidth (font oled64)"
      "Y (Coordinates dw) = Y (Coordinates oled64)"
    and pw: "\<And>x' y'. x' < unat (FontWidth (font oled64)) \<and> y' < unat (FontHeight (font oled64)) \<and>
          X (Coordinates oled64) + of_nat x' < width \<and> Y (Coordinates oled64) + of_nat y' < height oled64 \<Longrightarrow>
          pixel_bit dw (X (Coordinates oled64) + of_nat x') (Y (Coordinates oled64) + of_nat y') =
            (glyph_color WHITE (glyph_bit (font oled64) (CHR ''8'') x' y') = WHITE)"
    by blast
  from Write_Char_draws_glyph [OF h, of BLACK, THEN conjunct2] obtain db where
    b: "Write_Char oled64 (CHR ''8'') BLACK = Inr db"
    and pb: "\<And>x' y'. x' < unat (FontWidth (font oled64)) \<and> y' < unat (FontHeight (font oled64)) \<and>
          X (Coordinates oled64) + of_nat x' < width \<and> Y (Coordinates oled64) + of_nat y' < height oled64 \<Longrightarrow>
          pixel_bit db (X (Coordinates oled64) + of_nat x') (Y (Coordinates oled64) + of_nat y') =
            (glyph_color BLACK (glyph_bit (font oled64) (CHR ''8'') x' y') = WHITE)"
    by blast
  have 1: "cursor_after (Write_Char oled64 (CHR ''8'') WHITE) = Some (7, 0)"
    using w by (simp add: cursor_after_def oled64_fields font_7x10_upto_8_def)
  have 2: "pixel_bit dw 2 0" "\<not> pixel_bit dw 0 0"
    using pw [OF in_range(1)] pw [OF in_range(2)] g
    by (simp_all add: oled64_fields glyph_color_def)
  have 3: "\<not> pixel_bit db 2 0" "pixel_bit db 0 0"
    using pb [OF in_range(1)] pb [OF in_range(2)] g
    by (simp_all add: oled64_fields glyph_color_def)
  from h 1 2 3 w(1) b show ?thesis
    by (simp add: pixel_after_def)
qed

lemma Write_Char_past_buffer:
  "Write_Char (Set_Cursor oled65 0 64) (CHR ''8'') WHITE = Inl Buffer_Index"
proof -
  let ?d = "Set_Cursor oled65 0 64"
  have d: "?d = oled65\<lparr>Coordinates := \<lparr>X = 0, Y = 64\<rparr>\<rparr>"
    by (simp add: Set_Cursor_def Let_def oled65_fields width_def)
  have h: "unat (FontWidth (font ?d)) \<le> 16" "32 \<le> (of_char (CHR ''8'') :: nat)"
    "(of_char (CHR ''8'') - 32 + 1) * unat (FontHeight (font ?d)) \<le> length (data (font ?d))"
    by (simp_all add: d oled65_fields font_7x10_upto_8_def)
  have "glyph_pixels ?d (CHR ''8'') WHITE =
      (0, 64, glyph_color WHITE (glyph_bit (font ?d) (CHR ''8'') 0 0)) #
      tl (glyph_pixels ?d (CHR ''8'') WHITE)"
    by (simp add: glyph_pixels_def d oled65_fields font_7x10_upto_8_def upt_conv_Cons)
  moreover have "Draw_Pixel ?d 0 64 c = Inl Buffer_Index" for c
    by (rule Draw_Pixel_past_buffer) (simp_all add: d width_def oled65_fields)
  ultimately have "Draw_Pixels ?d (glyph_pixels ?d (CHR ''8'') WHITE) = Inl Buffer_Index"
    by (metis Draw_Pixels.simps(2) sum.case(1))
  then show ?thesis
    by (simp add: Write_Char_as_pixels [OF h])
qed

text \<open>Claim C5, as stated, at the 37th glyph of a line written from the top left corner
  with the 7 pixels wide font. The cursor is at column 252 before the call. The claim
  puts the glyph at the columns \<open>252 + x'\<close>, that is 252 to 258, none of which is on the
  128 columns wide screen, and the cursor at 259 afterwards. The code leaves the cursor at
  column 3 and lights the pixel (0, 0): column 4 of the glyph, drawn at
  \<open>(252 + 4) mod 256\<close>. And on a display constructed with 65 rows, with the cursor set to
  (0, 64), the first pixel of the glyph is in range and is written past the end of the
  buffer.\<close>

theorem Write_Char_wraps_at_column_256:
  "cursor_after (Write_String oled64 (replicate 36 (CHR ''8''))) = Some (252, 0) \<and>
   cursor_after (Write_Char (projr (Write_String oled64 (replicate 36 (CHR ''8'')))) (CHR ''8'') WHITE) =
     Some (3, 0) \<and>
   pixel_after (Write_Char (projr (Write_String oled64 (replicate 36 (CHR ''8'')))) (CHR ''8'') WHITE) 0 0 =
     Some True \<and>
   (3::nat) \<noteq> 252 + unat (FontWidth (font oled64)) \<and>
   (0::nat) \<notin> set (map ((+) 252) [0..<unat (FontWidth (font oled64))]) \<and>
   Write_Char (Set_Cursor oled65 0 64) (CHR ''8'') WHITE = Inl Buffer_Index"
proof -
  note h = oled64_glyph_hyps
  have nz: "CHR ''8'' \<noteq> CHR 0x00"
    by simp
  from Write_String_repeated [OF nz h(4) h(1,2,3,5), of 36] obtain d36 where
    r: "Write_String oled64 (replicate 36 (CHR ''8'')) = Inr d36"
    and f: "d36\<lparr>buffer := buffer oled64, Coordinates := Coordinates oled64\<rparr> = oled64"
    and l: "length (buffer d36) = length (buffer oled64)"
    and x: "X (Coordinates d36) = X (Coordinates oled64) + of_nat 36 * FontWidth (font oled64)"
    and y: "Y (Coordinates d36) = Y (Coordinates oled64)"
    by blast
  have m: "font d36 = font oled64" "height d36 = height oled64"
    using arg_cong [OF f, of font] arg_cong [OF f, of height] by simp_all
  have xy: "X (Coordinates d36) = 252" "Y (Coordinates d36) = 0"
    using x y by (simp_all add: oled64_fields font_7x10_upto_8_def)
  have h36: "length (buffer d36) = buffer_size" "height d36 \<le> 64"
    "unat (FontWidth (font d36)) \<le> 16" "32 \<le> (of_char (CHR ''8'') :: nat)"
    "(of_char (CHR ''8'') - 32 + 1) * unat (FontHeight (font d36)) \<le> length (data (font d36))"
    using h by (simp_all add: m l)
  from Write_Char_effect [OF h36, of WHITE] obtain d37 where
    w: "Write_Char d36 (CHR ''8'') WHITE = Inr d37"
      "X (Coordinates d37) = X (Coordinates d36) + FontWidth (font d36)"
      "Y (Coordinates d37) = Y (Coordinates d36)"
    and p: "\<And>x' y'. x' < unat (FontWidth (font d36)) \<and> y' < unat (FontHeight (font d36)) \<and>
          X (Coordinates d36) + of_nat x' < width \<and> Y (Coordinates d36) + of_nat y' < height d36 \<Longrightarrow>
          pixel_bit d37 (X (Coordinates d36) + of_nat x') (Y (Coordinates d36) + of_nat y') =
            (glyph_color WHITE (glyph_bit (font d36) (CHR ''8'') x' y') = WHITE)"
    by blast
  have "pixel_bit d37 (X (Coordinates d36) + of_nat 4) (Y (Coordinates d36) + of_nat 0) =
      (glyph_color WHITE (glyph_bit (font d36) (CHR ''8'') 4 0) = WHITE)"
    by (rule p) (simp add: m xy oled64_fields font_7x10_upto_8_def width_def)
  moreover have "X (Coordinates d36) + of_nat 4 = 0" "Y (Coordinates d36) + of_nat 0 = 0"
    by (simp_all add: xy)
  moreover have "glyph_color WHITE (glyph_bit (font d36) (CHR ''8'') 4 0) = WHITE"
    by (simp add: m oled64_fields glyph_color_def glyph_bit_def oled64_glyph_8)
  ultimately have px: "pixel_bit d37 0 0"
    by (simp only: simp_thms)
  have 1: "cursor_after (Write_String oled64 (replicate 36 (CHR ''8''))) = Some (252, 0)"
    using r xy by (simp add: cursor_after_def)
  have 2: "cursor_after (Write_Char d36 (CHR ''8'') WHITE) = Some (3, 0)"
    using w xy by (simp add: cursor_after_def m oled64_fields font_7x10_upto_8_def)
  have 3: "pixel_after (Write_Char d36 (CHR ''8'') WHITE) 0 0 = Some True"
    using w(1) px by (simp add: pixel_after_def)
  have 4: "(3::nat) \<noteq> 252 + unat (FontWidth (font oled64))"
    "(0::nat) \<notin> set (map ((+) 252) [0..<unat (FontWidth (font oled64))])"
    by (auto simp add: oled64_fields font_7x10_upto_8_def)
  from 1 2 3 4 r Write_Char_past_buffer show ?thesis
    by simp
qed

end
